theory Spec2Isabelle
  imports Complex_Main
begin

section \<open>IdleLoops Predictor: data model\<close>

text \<open>
  The engine of \<^verbatim>\<open>idleloops-predictor.user.js\<close> is embedded function by function.
  JavaScript numbers are idealised: fractional quantities are \<^typ>\<open>real\<close>, counters
  are \<^typ>\<open>int\<close> or \<^typ>\<open>nat\<close>; rounding error, infinities and NaN are outside the
  model. Objects used as dictionaries are maps. The globals that the script reads from
  the host page are gathered in a record and passed explicitly.
\<close>

datatype error = TypeError

text \<open>
  \<^verbatim>\<open>Koviko~Action\<close>: the host's description of an action. \<open>manaCost\<close> is the
  value of the host's \<open>manaCost()\<close>, which reads nothing that a pass changes;
  \<open>segments\<close> is a count.
\<close>

record action =
  expMult :: real
  townNum :: nat
  varName :: string
  segments :: nat
  stats :: "string \<rightharpoonup> real"
  manaCost :: real

text \<open>\<^verbatim>\<open>Koviko.Predictor~Progression\<close>.\<close>

record progression =
  progress :: real
  completed :: int
  total :: int

text \<open>
  \<^verbatim>\<open>Koviko.Predictor~Resources\<close>: \<open>mana\<close> is seeded by \<open>update\<close> and is a field of
  its own; every other resource is an entry of the dictionary \<open>others\<close>.
\<close>

record resources =
  mana :: real
  others :: "string \<rightharpoonup> real"

text \<open>\<^verbatim>\<open>Koviko.Prediction~Loop\<close>, with its \<open>effect\<close> object flattened into two fields.\<close>

record loop_desc =
  loop_max :: "(action \<Rightarrow> int) option"
  loop_cost :: "progression \<Rightarrow> action \<Rightarrow> int \<Rightarrow> real"
  loop_tick :: "progression \<Rightarrow> action \<Rightarrow> (string \<rightharpoonup> real) \<Rightarrow> resources \<Rightarrow> int \<Rightarrow> real"
  effect_segment :: "(resources \<Rightarrow> resources) option"
  effect_loop :: "(resources \<Rightarrow> resources) option"

text \<open>\<^verbatim>\<open>Koviko.Prediction\<close>: the members set by the constructor; \<open>cached_ticks\<close> is \<open>_ticks\<close>.\<close>

record prediction =
  name :: string
  action :: action
  cached_ticks :: int
  affected :: "string list"
  effect :: "(resources \<Rightarrow> resources) option"
  loop :: "loop_desc option"

text \<open>\<^verbatim>\<open>Koviko.Predictor~State\<close>.\<close>

record state =
  st_resources :: resources
  st_stats :: "string \<rightharpoonup> real"
  st_progress :: "string \<rightharpoonup> progression"

text \<open>\<^verbatim>\<open>Koviko~ListedAction\<close>.\<close>

record listed_action =
  la_name :: string
  loops :: nat

text \<open>
  The members of \<^verbatim>\<open>Koviko.globals\<close> that the engine itself reads. \<open>towns n key\<close> is
  \<^verbatim>\<open>towns[n][key]\<close>.
\<close>

record globals =
  statList :: "string list"
  getLevelFromExp :: "real \<Rightarrow> real"
  getTotalBonusXP :: "string \<Rightarrow> real"
  towns :: "nat \<Rightarrow> string \<Rightarrow> int"

section \<open>Prediction\<close>

text \<open>
  One step of the \<open>reduce\<close> in \<open>updateTicks\<close>. The arguments are optional because
  \<open>ticks\<close> calls \<open>updateTicks()\<close> with none: reading \<open>a.stats\<close> of an undefined
  \<open>a\<close> throws, and so does \<open>i in s\<close> for an undefined \<open>s\<close>, which is evaluated only
  when \<open>i in a.stats\<close> holds.
\<close>

definition cost_step ::
  "globals \<Rightarrow> action option \<Rightarrow> (string \<rightharpoonup> real) option \<Rightarrow> real \<Rightarrow> string \<Rightarrow> error + real" where
  "cost_step g a s cost i =
     (case a of
        None \<Rightarrow> Inl TypeError
      | Some a' \<Rightarrow>
          (case stats a' i of
             None \<Rightarrow> Inr (cost + 0)
           | Some w \<Rightarrow>
               (case s of
                  None \<Rightarrow> Inl TypeError
                | Some s' \<Rightarrow>
                    (case s' i of
                       None \<Rightarrow> Inr (cost + 0)
                     | Some x \<Rightarrow> Inr (cost + w / (1 + getLevelFromExp g x / 100))))))"

fun cost_reduce ::
  "globals \<Rightarrow> action option \<Rightarrow> (string \<rightharpoonup> real) option \<Rightarrow> real \<Rightarrow> string list \<Rightarrow> error + real" where
  "cost_reduce g a s cost [] = Inr cost"
| "cost_reduce g a s cost (i # is) =
     (case cost_step g a s cost i of
        Inl e \<Rightarrow> Inl e
      | Inr cost' \<Rightarrow> cost_reduce g a s cost' is)"

text \<open>\<open>updateTicks(a, s)\<close>: the value returned and the prediction with \<open>_ticks\<close> set to it.\<close>

definition updateTicks ::
  "globals \<Rightarrow> prediction \<Rightarrow> action option \<Rightarrow> (string \<rightharpoonup> real) option \<Rightarrow> error + (int \<times> prediction)" where
  "updateTicks g pr a s =
     (case cost_reduce g a s 0 (statList g) of
        Inl e \<Rightarrow> Inl e
      | Inr cost \<Rightarrow>
          (case a of
             None \<Rightarrow> Inl TypeError
           | Some a' \<Rightarrow>
               (let t = \<lceil>manaCost a' * cost - 1 / 1000000\<rceil>
                in Inr (t, pr\<lparr>cached_ticks := t\<rparr>))))"

text \<open>
  \<open>ticks()\<close> is \<^verbatim>\<open>this._ticks || this.updateTicks()\<close>: a cached value of zero is falsy
  and leads to the call without arguments.
\<close>

definition ticks :: "globals \<Rightarrow> prediction \<Rightarrow> error + int" where
  "ticks g pr =
     (if cached_ticks pr \<noteq> 0 then Inr (cached_ticks pr)
      else (case updateTicks g pr None None of Inl e \<Rightarrow> Inl e | Inr (t, pr') \<Rightarrow> Inr t))"

text \<open>
  \<open>exp(a, s)\<close>: the \<open>forEach\<close> over the stat list; \<open>ticks()\<close> is evaluated only for a
  stat that is in both \<open>a.stats\<close> and \<open>s\<close>.
\<close>

fun exp_each ::
  "globals \<Rightarrow> prediction \<Rightarrow> action \<Rightarrow> (string \<rightharpoonup> real) \<Rightarrow> string list \<Rightarrow>
   error + (string \<rightharpoonup> real)" where
  "exp_each g pr a s [] = Inr s"
| "exp_each g pr a s (i # is) =
     (case stats a i of
        None \<Rightarrow> exp_each g pr a s is
      | Some w \<Rightarrow>
          (case s i of
             None \<Rightarrow> exp_each g pr a s is
           | Some x \<Rightarrow>
               (case ticks g pr of
                  Inl e \<Rightarrow> Inl e
                | Inr t \<Rightarrow>
                    exp_each g pr a
                      (s(i \<mapsto> x + w * expMult a * (manaCost a / real_of_int t) * getTotalBonusXP g i))
                      is)))"

definition exp_gain ::
  "globals \<Rightarrow> prediction \<Rightarrow> action \<Rightarrow> (string \<rightharpoonup> real) \<Rightarrow> error + (string \<rightharpoonup> real)" where
  "exp_gain g pr a s = exp_each g pr a s (statList g)"

section \<open>Predictor\<close>

subsection \<open>One tick\<close>

text \<open>
  The first \<open>for\<close> of \<open>tick\<close>: the segment reached by the progress already made.
  \<open>loopCost\<close> is the closure \<open>prediction.loop.cost(progression, action)\<close>; nothing
  changes the progression while this loop runs. The loop need not end (a cost that is
  never positive), so the result is optional and \<open>None\<close> stands for a loop that runs
  forever.
\<close>

partial_function (option) pre_walk :: "(int \<Rightarrow> real) \<Rightarrow> real \<Rightarrow> int \<Rightarrow> (real \<times> int) option" where
  "pre_walk loopCost progress' segment =
     (if progress' \<ge> loopCost segment
      then pre_walk loopCost (progress' - loopCost segment) (segment + 1)
      else Some (progress', segment))"

text \<open>\<open>maxSegments\<close> is a number or \<open>Infinity\<close> (\<open>None\<close>).\<close>

definition below_max :: "int option \<Rightarrow> int \<Rightarrow> bool" where
  "below_max maxSegments segment =
     (case maxSegments of None \<Rightarrow> True | Some m \<Rightarrow> segment < m)"

definition apply_effect :: "(resources \<Rightarrow> resources) option \<Rightarrow> resources \<Rightarrow> resources" where
  "apply_effect f r = (case f of None \<Rightarrow> r | Some e \<Rightarrow> e r)"

text \<open>
  The body of the second \<open>for\<close>: the completion of a loop when the segment is the last
  one, then the segment effect.
\<close>

definition walk_body ::
  "action \<Rightarrow> loop_desc \<Rightarrow> progression \<times> resources \<times> int \<Rightarrow> progression \<times> resources \<times> int" where
  "walk_body a lp = (\<lambda>(p, r, segment).
     (let totalSegments = int (segments a);
          (p1, r1, segment1) =
            (if segment \<ge> totalSegments - 1
             then (p\<lparr>progress := 0,
                     completed := completed p + totalSegments,
                     total := total p + 1\<rparr>,
                   apply_effect (effect_loop lp) r,
                   segment - totalSegments)
             else (p, r, segment))
      in (p1, apply_effect (effect_segment lp) r1, segment1)))"

text \<open>
  The second \<open>for\<close>. The cost closure reads the progression object, which the body
  mutates, so the cost in the update expression \<^verbatim>\<open>progress -= loopCost(segment++)\<close>
  is taken at the progression and segment that the body left.
\<close>

partial_function (option) post_walk ::
  "action \<Rightarrow> loop_desc \<Rightarrow> int option \<Rightarrow> progression \<Rightarrow> resources \<Rightarrow> real \<Rightarrow> int \<Rightarrow>
   (progression \<times> resources \<times> real \<times> int) option" where
  "post_walk a lp maxSegments p r progress' segment =
     (if progress' \<ge> loop_cost lp p a segment \<and> below_max maxSegments segment
      then (case walk_body a lp (p, r, segment) of
              (p1, r1, segment1) \<Rightarrow>
                post_walk a lp maxSegments p1 r1
                  (progress' - loop_cost lp p1 a segment1) (segment1 + 1))
      else Some (p, r, progress', segment))"

definition max_segments :: "action \<Rightarrow> loop_desc \<Rightarrow> int option" where
  "max_segments a lp =
     (case loop_max lp of None \<Rightarrow> None | Some m \<Rightarrow> Some (m a * int (segments a)))"

text \<open>
  The loop branch of \<open>tick\<close> up to its \<open>return\<close>: the progress of the tick, the final
  segment and the state left.
\<close>

definition tick_loop ::
  "globals \<Rightarrow> prediction \<Rightarrow> loop_desc \<Rightarrow> state \<Rightarrow> (error + (real \<times> int \<times> state)) option" where
  "tick_loop g pr lp st =
     (case st_progress st (name pr) of
        None \<Rightarrow> Some (Inl TypeError)
      | Some p \<Rightarrow>
          (case pre_walk (loop_cost lp p (action pr)) (progress p) 0 of
             None \<Rightarrow> None
           | Some (progress1, segment1) \<Rightarrow>
               (case ticks g pr of
                  Inl e \<Rightarrow> Some (Inl e)
                | Inr t \<Rightarrow>
                    (let additionalProgress =
                           loop_tick lp p (action pr) (st_stats st) (st_resources st) segment1
                             * (manaCost (action pr) / real_of_int t)
                     in (case post_walk (action pr) lp (max_segments (action pr) lp)
                                (p\<lparr>progress := progress p + additionalProgress\<rparr>)
                                (st_resources st) (progress1 + additionalProgress) segment1 of
                           None \<Rightarrow> None
                         | Some (p', r', progress2, segment2) \<Rightarrow>
                             Some (Inr (additionalProgress, segment2,
                               st\<lparr>st_resources := r',
                                  st_progress := (st_progress st)(name pr \<mapsto> p')\<rparr>)))))))"

text \<open>\<open>tick(prediction, state)\<close>: whether another tick can occur, and the state left.\<close>

definition tick :: "globals \<Rightarrow> prediction \<Rightarrow> state \<Rightarrow> (error + (bool \<times> state)) option" where
  "tick g pr st =
     (case exp_gain g pr (action pr) (st_stats st) of
        Inl e \<Rightarrow> Some (Inl e)
      | Inr s' \<Rightarrow>
          (case loop pr of
             None \<Rightarrow> Some (Inr (True, st\<lparr>st_stats := s'\<rparr>))
           | Some lp \<Rightarrow>
               (case tick_loop g pr lp (st\<lparr>st_stats := s'\<rparr>) of
                  None \<Rightarrow> None
                | Some (Inl e) \<Rightarrow> Some (Inl e)
                | Some (Inr (additionalProgress, segment, st')) \<Rightarrow>
                    Some (Inr (additionalProgress \<noteq> 0
                                 \<and> below_max (max_segments (action pr) lp) segment, st')))))"

subsection \<open>One run\<close>

text \<open>\<^verbatim>\<open>state.resources.mana--\<close>.\<close>

definition spend_mana :: "state \<Rightarrow> state" where
  "spend_mana st = st\<lparr>st_resources := (st_resources st)\<lparr>mana := mana (st_resources st) - 1\<rparr>\<rparr>"

text \<open>
  The \<open>for\<close> of \<open>predict\<close>, entered with its counter at \<open>k\<close>. Beside the state it
  returns how many times the body has run, which is the number of mana decrements: the
  counter when the condition fails, one more when the body leaves by \<open>break\<close>.
\<close>

function predict_loop ::
  "globals \<Rightarrow> prediction \<Rightarrow> state \<Rightarrow> nat \<Rightarrow> (error + (state \<times> nat)) option" where
  "predict_loop g pr st k =
     (case ticks g pr of
        Inl e \<Rightarrow> Some (Inl e)
      | Inr t \<Rightarrow>
          (if int k < t
           then (case tick g pr (spend_mana st) of
                   None \<Rightarrow> None
                 | Some (Inl e) \<Rightarrow> Some (Inl e)
                 | Some (Inr (continue, st')) \<Rightarrow>
                     (if continue then predict_loop g pr st' (Suc k)
                      else Some (Inr (st', Suc k))))
           else Some (Inr (st, k))))"
  by pat_completeness auto
termination
  by (relation "measure (\<lambda>(g, pr, st, k). nat (cached_ticks pr - int k))")
     (auto simp: ticks_def updateTicks_def split: if_splits sum.splits prod.splits)

declare predict_loop.simps [simp del]
declare pre_walk.simps [code]
declare post_walk.simps [code]

text \<open>\<open>predict(prediction, state)\<close>.\<close>

definition predict :: "globals \<Rightarrow> prediction \<Rightarrow> state \<Rightarrow> (error + (prediction \<times> state)) option" where
  "predict g pr st =
     (case updateTicks g pr (Some (action pr)) (Some (st_stats st)) of
        Inl e \<Rightarrow> Some (Inl e)
      | Inr (t, pr') \<Rightarrow>
          (case predict_loop g pr' st 0 of
             None \<Rightarrow> None
           | Some (Inl e) \<Rightarrow> Some (Inl e)
           | Some (Inr (st', n)) \<Rightarrow> Some (Inr (pr', st'))))"

subsection \<open>The action list\<close>

text \<open>
  One pass of the \<open>for\<close> over \<open>listedAction.loops\<close> in \<open>update\<close>: the mana is saved,
  the prediction runs, the validity and the total are updated from the mana left by the
  ticks, and only then the effect of the action is applied.
\<close>

definition repetition ::
  "globals \<Rightarrow> prediction \<Rightarrow> state \<Rightarrow> real \<Rightarrow> bool \<Rightarrow>
   (error + (prediction \<times> state \<times> real \<times> bool)) option" where
  "repetition g pr st total' isValid =
     (let currentMana = mana (st_resources st)
      in (case predict g pr st of
            None \<Rightarrow> None
          | Some (Inl e) \<Rightarrow> Some (Inl e)
          | Some (Inr (pr', st')) \<Rightarrow>
              Some (Inr (pr',
                st'\<lparr>st_resources := apply_effect (effect pr') (st_resources st')\<rparr>,
                total' + (currentMana - mana (st_resources st')),
                isValid \<and> mana (st_resources st') \<ge> 0))))"

fun repetitions ::
  "globals \<Rightarrow> prediction \<Rightarrow> state \<Rightarrow> real \<Rightarrow> bool \<Rightarrow> nat \<Rightarrow>
   (error + (prediction \<times> state \<times> real \<times> bool)) option" where
  "repetitions g pr st total' isValid 0 = Some (Inr (pr, st, total', isValid))"
| "repetitions g pr st total' isValid (Suc n) =
     (case repetition g pr st total' isValid of
        None \<Rightarrow> None
      | Some (Inl e) \<Rightarrow> Some (Inl e)
      | Some (Inr (pr', st', total'', isValid')) \<Rightarrow> repetitions g pr' st' total'' isValid' n)"

text \<open>
  What \<open>update\<close> carries from one list entry to the next: the predictions (their cached
  ticks change), the state, the total, and one row per entry, \<open>None\<close> for an entry
  that displays nothing and otherwise the resources and the validity handed to
  \<open>template\<close>.
\<close>

type_synonym row = "(resources \<times> bool) option"

type_synonym pass = "(string \<rightharpoonup> prediction) \<times> state \<times> real \<times> row list"

text \<open>\<open>state.progress[prediction.name]\<close> is created for a loop that has none yet.\<close>

definition ensure_progress :: "globals \<Rightarrow> prediction \<Rightarrow> state \<Rightarrow> state" where
  "ensure_progress g pr st =
     (if loop pr \<noteq> None \<and> name pr \<notin> dom (st_progress st)
      then st\<lparr>st_progress := (st_progress st)(name pr \<mapsto>
             \<lparr>progress = 0, completed = 0,
              total = towns g (townNum (action pr)) (''total'' @ varName (action pr))\<rparr>)\<rparr>
      else st)"

text \<open>
  \<open>this.predictions\<close> is a plain object: \<open>predictions\<close> holds its own properties, one
  for each registered name, and a name that is not registered is still found when
  \<open>Object.prototype\<close> has a member of that name. The members are functions, or the
  prototype itself for \<^verbatim>\<open>__proto__\<close>: truthy values without \<open>loop\<close>, \<open>affected\<close>
  or \<open>updateTicks\<close>.
\<close>

definition object_prototype_names :: "string list" where
  "object_prototype_names =
     [''constructor'', ''hasOwnProperty'', ''isPrototypeOf'', ''propertyIsEnumerable'',
      ''toLocaleString'', ''toString'', ''valueOf'', ''__proto__'', ''__defineGetter__'',
      ''__defineSetter__'', ''__lookupGetter__'', ''__lookupSetter__'']"

datatype lookup = Found prediction | Inherited | Missing

text \<open>\<^verbatim>\<open>this.predictions[listedAction.name]\<close>.\<close>

definition lookup_prediction :: "(string \<rightharpoonup> prediction) \<Rightarrow> string \<Rightarrow> lookup" where
  "lookup_prediction predictions n =
     (case predictions n of
        Some pr \<Rightarrow> Found pr
      | None \<Rightarrow> if n \<in> set object_prototype_names then Inherited else Missing)"

text \<open>
  The callback of \<open>actions.forEach\<close>: \<open>isValid\<close> is a local of the callback. An
  undefined prediction is skipped. An inherited one passes \<^verbatim>\<open>if (prediction)\<close>: it has
  no \<open>loop\<close>, so no progression is created, the first repetition calls
  \<open>prediction.updateTicks\<close>, which is not a function, and with no repetition the row is
  written with the validity still true.
\<close>

definition entry :: "globals \<Rightarrow> listed_action \<Rightarrow> pass \<Rightarrow> (error + pass) option" where
  "entry g listedAction = (\<lambda>(predictions, st, total', rows).
     (case lookup_prediction predictions (la_name listedAction) of
        Missing \<Rightarrow> Some (Inr (predictions, st, total', rows @ [None]))
      | Inherited \<Rightarrow>
          (if 0 < loops listedAction then Some (Inl TypeError)
           else Some (Inr (predictions, st, total', rows @ [Some (st_resources st, True)])))
      | Found pr \<Rightarrow>
          (case repetitions g pr (ensure_progress g pr st) total' True (loops listedAction) of
             None \<Rightarrow> None
           | Some (Inl e) \<Rightarrow> Some (Inl e)
           | Some (Inr (pr', st', total'', isValid)) \<Rightarrow>
               Some (Inr (predictions(la_name listedAction \<mapsto> pr'), st', total'',
                          rows @ [Some (st_resources st', isValid)])))))"

fun entries :: "globals \<Rightarrow> listed_action list \<Rightarrow> pass \<Rightarrow> (error + pass) option" where
  "entries g [] ps = Some (Inr ps)"
| "entries g (x # xs) ps =
     (case entry g x ps of
        None \<Rightarrow> None
      | Some (Inl e) \<Rightarrow> Some (Inl e)
      | Some (Inr ps') \<Rightarrow> entries g xs ps')"

text \<open>
  The names collected into \<open>affected\<close>, in list order and with repetitions:
  \<^verbatim>\<open>x.name in this.predictions && this.predictions[x.name].affected || []\<close>, where an
  inherited value has no \<open>affected\<close>.
\<close>

definition affected_names :: "(string \<rightharpoonup> prediction) \<Rightarrow> listed_action list \<Rightarrow> string list" where
  "affected_names predictions actions =
     concat (map (\<lambda>x. case lookup_prediction predictions (la_name x) of
                         Found pr \<Rightarrow> affected pr
                       | Inherited \<Rightarrow> []
                       | Missing \<Rightarrow> []) actions)"

text \<open>\<^verbatim>\<open>state.resources[x] || (state.resources[x] = 0)\<close>.\<close>

definition init_resource :: "resources \<Rightarrow> string \<Rightarrow> resources" where
  "init_resource r x =
     (if x = ''mana'' then (if mana r \<noteq> 0 then r else r\<lparr>mana := 0\<rparr>)
      else (case others r x of
              None \<Rightarrow> r\<lparr>others := (others r)(x \<mapsto> 0)\<rparr>
            | Some v \<Rightarrow> if v \<noteq> 0 then r else r\<lparr>others := (others r)(x \<mapsto> 0)\<rparr>))"

definition initial_state :: "globals \<Rightarrow> string list \<Rightarrow> state" where
  "initial_state g affected' =
     \<lparr>st_resources = foldl init_resource \<lparr>mana = 250, others = Map.empty\<rparr> affected',
      st_stats = foldl (\<lambda>stats' name'. stats'(name' \<mapsto> 0)) Map.empty (statList g),
      st_progress = Map.empty\<rparr>"

text \<open>
  \<open>update(actions, container)\<close> with a container: the predictions, the final state, the
  total mana and the rows.
\<close>

definition update ::
  "globals \<Rightarrow> (string \<rightharpoonup> prediction) \<Rightarrow> listed_action list \<Rightarrow> (error + pass) option" where
  "update g predictions actions =
     entries g actions
       (predictions, initial_state g (affected_names predictions actions), 0, [])"

subsection \<open>Predictions of the catalogue\<close>

text \<open>The constructor of \<open>Prediction\<close>; the action is what \<open>translateClassNames\<close> gave.\<close>

definition new_prediction ::
  "string \<Rightarrow> action \<Rightarrow> string list \<Rightarrow> (resources \<Rightarrow> resources) option \<Rightarrow> loop_desc option \<Rightarrow>
   prediction" where
  "new_prediction n a aff eff lp =
     \<lparr>name = n, action = a, cached_ticks = 0, affected = aff, effect = eff, loop = lp\<rparr>"

text \<open>\<^verbatim>\<open>'Wander': {}\<close> and \<^verbatim>\<open>'Smash Pots': { affected: ['mana'], effect: r => r.mana += 100 }\<close>.\<close>

definition wander :: "action \<Rightarrow> prediction" where
  "wander a = new_prediction ''Wander'' a [] None None"

definition smash_pots :: "action \<Rightarrow> prediction" where
  "smash_pots a =
     new_prediction ''Smash Pots'' a [''mana''] (Some (\<lambda>r. r\<lparr>mana := mana r + 100\<rparr>)) None"

subsection \<open>Sample host data\<close>

text \<open>
  Host data for the concrete instances below: two stats, every level zero, no bonus
  experience, no loop completed in the past.
\<close>

definition sample_globals :: globals where
  "sample_globals =
     \<lparr>statList = [''Str'', ''Spd''], getLevelFromExp = (\<lambda>x. 0),
      getTotalBonusXP = (\<lambda>i. 1), towns = (\<lambda>n key. 0)\<rparr>"

text \<open>An action of mana cost 50 with no stat weight at all.\<close>

definition weightless_action :: action where
  "weightless_action =
     \<lparr>expMult = 1, townNum = 0, varName = ''Pots'', segments = 0,
      stats = Map.empty, manaCost = 50\<rparr>"

definition fresh_state :: state where
  "fresh_state = initial_state sample_globals []"

text \<open>Host data for Wander and Smash Pots: mana costs 250 and 50, weights summing to one.\<close>

definition wander_action :: action where
  "wander_action =
     \<lparr>expMult = 1, townNum = 0, varName = ''Wander'', segments = 0,
      stats = [''Spd'' \<mapsto> 1], manaCost = 250\<rparr>"

definition pots_action :: action where
  "pots_action =
     \<lparr>expMult = 1, townNum = 0, varName = ''Pots'', segments = 0,
      stats = [''Str'' \<mapsto> 1 / 5, ''Spd'' \<mapsto> 4 / 5], manaCost = 50\<rparr>"

definition catalogue :: "string \<rightharpoonup> prediction" where
  "catalogue = [''Wander'' \<mapsto> wander wander_action, ''Smash Pots'' \<mapsto> smash_pots pots_action]"

text \<open>
  A loop action of three segments and mana cost 5. \<open>steady_loop\<close> costs 10 a segment,
  progresses by 4 a tick and pays 200 mana at each segment, as Adventure Guild does;
  \<open>closed_loop\<close> is the same loop under a maximum of zero loops, as a dungeon without
  a floor.
\<close>

definition sample_action :: action where
  "sample_action =
     \<lparr>expMult = 1, townNum = 0, varName = ''Sample'', segments = 3,
      stats = [''Str'' \<mapsto> 1], manaCost = 5\<rparr>"

definition steady_loop :: loop_desc where
  "steady_loop =
     \<lparr>loop_max = None, loop_cost = (\<lambda>p a segment. 10), loop_tick = (\<lambda>p a s r offset. 4),
      effect_segment = Some (\<lambda>r. r\<lparr>mana := mana r + 200\<rparr>), effect_loop = None\<rparr>"

definition closed_loop :: loop_desc where
  "closed_loop =
     \<lparr>loop_max = Some (\<lambda>a. 0), loop_cost = (\<lambda>p a segment. 10), loop_tick = (\<lambda>p a s r offset. 4),
      effect_segment = None, effect_loop = None\<rparr>"

definition steady :: prediction where
  "steady = new_prediction ''Steady'' sample_action [] None (Some steady_loop)"

definition closed :: prediction where
  "closed = new_prediction ''Closed'' sample_action [] None (Some closed_loop)"

text \<open>\<open>capped_loop\<close> is the same loop under a maximum of one loop and without effects.\<close>

definition capped_loop :: loop_desc where
  "capped_loop =
     \<lparr>loop_max = Some (\<lambda>a. 1), loop_cost = (\<lambda>p a segment. 10), loop_tick = (\<lambda>p a s r offset. 4),
      effect_segment = None, effect_loop = None\<rparr>"

definition capped :: prediction where
  "capped = new_prediction ''Capped'' sample_action [] None (Some capped_loop)"

text \<open>
  States of a pass in which a loop is under way: Steady with 8 and with 28 of progress,
  Capped with its one loop completed.
\<close>

definition st8 :: state where
  "st8 = fresh_state\<lparr>st_progress := [''Steady'' \<mapsto> \<lparr>progress = 8, completed = 0, total = 0\<rparr>]\<rparr>"

definition st28 :: state where
  "st28 = fresh_state\<lparr>st_progress := [''Steady'' \<mapsto> \<lparr>progress = 28, completed = 0, total = 0\<rparr>]\<rparr>"

definition capped_done :: state where
  "capped_done = fresh_state\<lparr>st_progress := [''Capped'' \<mapsto> \<lparr>progress = 0, completed = 3, total = 1\<rparr>]\<rparr>"

section \<open>Notions used in the statements\<close>

text \<open>
  The contribution of one stat to the cost sum, in the words of the specification: the
  weight over one plus a hundredth of the level, and zero for a stat without a weight
  or without an entry in the stats table.
\<close>

definition stat_share :: "globals \<Rightarrow> action \<Rightarrow> (string \<rightharpoonup> real) \<Rightarrow> string \<Rightarrow> real" where
  "stat_share g a s i =
     (case stats a i of
        None \<Rightarrow> 0
      | Some w \<Rightarrow> (case s i of None \<Rightarrow> 0 | Some x \<Rightarrow> w / (1 + getLevelFromExp g x / 100)))"

text \<open>
  The stats table after \<open>n\<close> ticks of an action whose tick count is \<open>t\<close>: every
  recognised stat with a weight and an entry has gained \<open>n\<close> times the experience of
  one tick.
\<close>

definition gained :: "globals \<Rightarrow> action \<Rightarrow> int \<Rightarrow> real \<Rightarrow> (string \<rightharpoonup> real) \<Rightarrow> (string \<rightharpoonup> real)" where
  "gained g a t n s = (\<lambda>i.
     (case s i of
        None \<Rightarrow> None
      | Some x \<Rightarrow>
          (if i \<in> set (statList g)
           then (case stats a i of
                   None \<Rightarrow> Some x
                 | Some w \<Rightarrow>
                     Some (x + n * (w * expMult a * (manaCost a / real_of_int t) * getTotalBonusXP g i)))
           else Some x)))"

text \<open>The state after \<open>n\<close> ticks of an action without a loop.\<close>

definition after_ticks :: "globals \<Rightarrow> prediction \<Rightarrow> nat \<Rightarrow> state \<Rightarrow> state" where
  "after_ticks g pr n st =
     st\<lparr>st_resources := (st_resources st)\<lparr>mana := mana (st_resources st) - real n\<rparr>,
        st_stats := gained g (action pr) (cached_ticks pr) (real n) (st_stats st)\<rparr>"

text \<open>What the second walk of a tick keeps, from its start to its result.\<close>

definition walk_inv ::
  "action \<Rightarrow> loop_desc \<Rightarrow> int option \<Rightarrow> progression \<Rightarrow> real \<Rightarrow> int \<Rightarrow>
   progression \<times> resources \<times> real \<times> int \<Rightarrow> bool" where
  "walk_inv a lp mx p pg s = (\<lambda>(p', r', pg', s').
     total p \<le> total p'
     \<and> completed p' - completed p = (total p' - total p) * int (segments a)
     \<and> (total p' \<noteq> total p \<longrightarrow> progress p' = 0)
     \<and> (total p' = total p \<longrightarrow>
          p' = p \<and> s \<le> s' \<and> pg = pg' + (\<Sum>j\<in>{s..<s'}. loop_cost lp p a j)
          \<and> (0 \<le> pg \<longrightarrow> 0 \<le> pg'))
     \<and> \<not> (loop_cost lp p' a s' \<le> pg' \<and> below_max mx s'))"

text \<open>
  Repetition \<open>m\<close> (counted from zero) of an entry leaves negative mana right after its
  ticks.
\<close>

definition went_negative ::
  "globals \<Rightarrow> prediction \<Rightarrow> state \<Rightarrow> real \<Rightarrow> nat \<Rightarrow> bool" where
  "went_negative g pr st tot m =
     (\<exists>pr1 st1 tot1 v1 pr2 st2.
        repetitions g pr st tot True m = Some (Inr (pr1, st1, tot1, v1))
      \<and> predict g pr1 st1 = Some (Inr (pr2, st2))
      \<and> mana (st_resources st2) < 0)"

text \<open>A result of \<open>update\<close> with its rows changed.\<close>

definition with_rows :: "(row list \<Rightarrow> row list) \<Rightarrow> (error + pass) option \<Rightarrow> (error + pass) option" where
  "with_rows f res =
     (case res of
        None \<Rightarrow> None
      | Some (Inl e) \<Rightarrow> Some (Inl e)
      | Some (Inr (predictions, st, tot, rows)) \<Rightarrow> Some (Inr (predictions, st, tot, f rows)))"

text \<open>
  Readings of a result: the validity of each row, the progression of a loop, and the
  total.
\<close>

definition validity_flags :: "(error + pass) option \<Rightarrow> bool option list" where
  "validity_flags res =
     (case res of
        Some (Inr (predictions, st, tot, rows)) \<Rightarrow> map (map_option snd) rows
      | _ \<Rightarrow> [])"

definition final_progression :: "(error + pass) option \<Rightarrow> string \<Rightarrow> progression option" where
  "final_progression res n =
     (case res of
        Some (Inr (predictions, st, tot, rows)) \<Rightarrow> st_progress st n
      | _ \<Rightarrow> None)"

definition mana_total :: "(error + pass) option \<Rightarrow> real option" where
  "mana_total res =
     (case res of
        Some (Inr (predictions, st, tot, rows)) \<Rightarrow> Some tot
      | _ \<Rightarrow> None)"

section \<open>Evaluation of the sample data\<close>

lemma ceiling_less_millionth: "\<lceil>real_of_int n - 1 / 1000000\<rceil> = n"
  by (rule ceiling_unique) simp_all

lemma fresh_stats: "st_stats fresh_state = [''Str'' \<mapsto> 0, ''Spd'' \<mapsto> 0]"
  by (simp add: fresh_state_def initial_state_def sample_globals_def)

lemma fresh_resources: "st_resources fresh_state = \<lparr>mana = 250, others = Map.empty\<rparr>"
  by (simp add: fresh_state_def initial_state_def)

lemma fresh_progress: "st_progress fresh_state = Map.empty"
  by (simp add: fresh_state_def initial_state_def)

lemmas sample_defs =
  fresh_state_def initial_state_def steady_def closed_def capped_def new_prediction_def
  steady_loop_def closed_loop_def capped_loop_def sample_action_def sample_globals_def

lemmas tick_defs =
  tick_def exp_gain_def tick_loop_def ticks_def pre_walk.simps post_walk.simps walk_body_def
  below_max_def max_segments_def apply_effect_def Let_def

section \<open>The tick count\<close>

lemma cost_reduce_defined:
  "cost_reduce g (Some a) (Some s) c is = Inr (c + (\<Sum>i\<leftarrow>is. stat_share g a s i))"
  by (induction "is" arbitrary: c)
     (simp_all add: cost_step_def stat_share_def split: option.splits)

lemma updateTicks_defined:
  "updateTicks g pr (Some a) (Some s) =
     Inr (\<lceil>manaCost a * (\<Sum>i\<leftarrow>statList g. stat_share g a s i) - 1 / 1000000\<rceil>,
          pr\<lparr>cached_ticks := \<lceil>manaCost a * (\<Sum>i\<leftarrow>statList g. stat_share g a s i) - 1 / 1000000\<rceil>\<rparr>)"
  by (simp add: updateTicks_def cost_reduce_defined Let_def)

text \<open>
  Claim C3. For every action and every stats table, \<open>updateTicks\<close> succeeds, and it
  returns and caches the ceiling of the mana cost times the sum of the stat shares over
  the recognised stat names, less a millionth.
\<close>

theorem updateTicks_formula:
  "updateTicks g pr (Some a) (Some s) =
     Inr (\<lceil>manaCost a * (\<Sum>i\<leftarrow>statList g. stat_share g a s i) - 1 / 1000000\<rceil>,
          pr\<lparr>cached_ticks := \<lceil>manaCost a * (\<Sum>i\<leftarrow>statList g. stat_share g a s i) - 1 / 1000000\<rceil>\<rparr>)"
  unfolding updateTicks_def cost_reduce_defined by (simp add: Let_def)

lemma pots_ticks:
  "updateTicks sample_globals (smash_pots pots_action) (Some (action (smash_pots pots_action)))
     (Some (st_stats fresh_state))
   = Inr (50, (smash_pots pots_action)\<lparr>cached_ticks := 50\<rparr>)"
  using ceiling_less_millionth [of 50]
  by (simp add: updateTicks_defined fresh_stats stat_share_def smash_pots_def new_prediction_def
      pots_action_def sample_globals_def)

lemma updateTicks_undefined: "updateTicks g pr None None = Inl TypeError"
  by (cases "statList g") (simp_all add: updateTicks_def cost_step_def)

lemma ticks_zero: "cached_ticks pr = 0 \<Longrightarrow> ticks g pr = Inl TypeError"
  by (simp add: ticks_def updateTicks_undefined)

lemma ticks_nonzero: "cached_ticks pr \<noteq> 0 \<Longrightarrow> ticks g pr = Inr (cached_ticks pr)"
  by (simp add: ticks_def)

lemma predict_loop_zero: "cached_ticks pr = 0 \<Longrightarrow> predict_loop g pr st k = Some (Inl TypeError)"
  by (subst predict_loop.simps) (simp add: ticks_zero)

lemma zero_share:
  "\<forall>i\<in>set is. stats a i = None \<or> stats a i = Some 0 \<Longrightarrow> (\<Sum>i\<leftarrow>is. stat_share g a s i) = 0"
  by (induction "is") (auto simp: stat_share_def split: option.splits)

text \<open>
  Claim C2. For an action of mana cost 50 whose weights over the recognised stats are all
  zero or missing, \<open>updateTicks\<close> does compute zero ticks. The run does not complete,
  though: the condition of the loop in \<open>predict\<close> calls \<open>ticks()\<close>, the cached zero is
  falsy, \<open>updateTicks()\<close> is called without arguments and throws. The repetition
  throws with it, before the effect of the action is reached.
\<close>

theorem zero_ticks_run_raises:
  assumes "\<forall>i\<in>set (statList g). stats (action pr) i = None \<or> stats (action pr) i = Some 0"
    and "manaCost (action pr) = 50"
  shows "updateTicks g pr (Some (action pr)) (Some (st_stats st)) = Inr (0, pr\<lparr>cached_ticks := 0\<rparr>)
       \<and> predict g pr st = Some (Inl TypeError)
       \<and> repetition g pr st total' isValid = Some (Inl TypeError)"
proof -
  have s0: "(\<Sum>i\<leftarrow>statList g. stat_share g (action pr) (st_stats st) i) = 0"
    using assms(1) by (rule zero_share)
  have c0: "\<lceil>- (1 / 1000000 :: real)\<rceil> = 0"
    by (rule ceiling_unique) simp_all
  have ut: "updateTicks g pr (Some (action pr)) (Some (st_stats st)) = Inr (0, pr\<lparr>cached_ticks := 0\<rparr>)"
    by (simp add: updateTicks_def cost_reduce_defined s0 assms(2) c0)
  have p: "predict g pr st = Some (Inl TypeError)"
    by (simp add: predict_def ut predict_loop_zero)
  show ?thesis using ut p by (simp add: repetition_def)
qed

theorem zero_ticks_run_raises_witness:
  "statList sample_globals = [''Str'', ''Spd'']
   \<and> stats (action (smash_pots weightless_action)) ''Str'' = None
   \<and> stats (action (smash_pots weightless_action)) ''Spd'' = None
   \<and> manaCost (action (smash_pots weightless_action)) = 50
   \<and> updateTicks sample_globals (smash_pots weightless_action)
        (Some weightless_action) (Some (st_stats fresh_state))
       = Inr (0, smash_pots weightless_action)
   \<and> predict sample_globals (smash_pots weightless_action) fresh_state = Some (Inl TypeError)
   \<and> repetition sample_globals (smash_pots weightless_action) fresh_state 0 True
       = Some (Inl TypeError)"
proof -
  have a: "action (smash_pots weightless_action) = weightless_action"
    by (simp add: smash_pots_def new_prediction_def)
  have h1: "\<forall>i\<in>set (statList sample_globals).
      stats (action (smash_pots weightless_action)) i = None
      \<or> stats (action (smash_pots weightless_action)) i = Some 0"
    unfolding a by (simp add: weightless_action_def)
  have h2: "manaCost (action (smash_pots weightless_action)) = 50"
    unfolding a by (simp add: weightless_action_def)
  have c: "(smash_pots weightless_action)\<lparr>cached_ticks := 0\<rparr> = smash_pots weightless_action"
    by (simp add: smash_pots_def new_prediction_def)
  show ?thesis
    using zero_ticks_run_raises [OF h1 h2, of fresh_state 0 True] h2
    by (simp add: a c) (simp add: weightless_action_def sample_globals_def)
qed

section \<open>Runs of an action without a loop\<close>

lemma exp_each_distinct:
  "distinct is \<Longrightarrow> cached_ticks pr \<noteq> 0 \<Longrightarrow>
   exp_each g pr a s is = Inr (\<lambda>i.
     (case s i of
        None \<Rightarrow> None
      | Some x \<Rightarrow>
          (if i \<in> set is
           then (case stats a i of
                   None \<Rightarrow> Some x
                 | Some w \<Rightarrow>
                     Some (x + w * expMult a * (manaCost a / real_of_int (cached_ticks pr)) * getTotalBonusXP g i))
           else Some x)))"
proof (induction "is" arbitrary: s)
  case Nil
  show ?case by (auto split: option.splits)
next
  case (Cons j js)
  then have d: "distinct js" and nj: "j \<notin> set js" by simp_all
  note IH = Cons.IH [OF d Cons.prems(2)]
  show ?case
  proof (cases "stats a j")
    case None
    then show ?thesis by (auto simp: IH split: option.splits intro!: ext)
  next
    case (Some w)
    show ?thesis
    proof (cases "s j")
      case None
      then show ?thesis using Some by (auto simp: IH split: option.splits intro!: ext)
    next
      case (Some x)
      then show ?thesis using \<open>stats a j = Some w\<close> nj
        by (auto simp: IH ticks_nonzero Cons.prems(2) split: option.splits intro!: ext)
    qed
  qed
qed

lemma exp_gain_distinct:
  "distinct (statList g) \<Longrightarrow> cached_ticks pr \<noteq> 0 \<Longrightarrow>
   exp_gain g pr a s = Inr (gained g a (cached_ticks pr) 1 s)"
  unfolding exp_gain_def gained_def
  by (subst exp_each_distinct) (auto split: option.splits intro!: ext)

lemma gained_add: "gained g a t m (gained g a t n s) = gained g a t (n + m) s"
  by (rule ext) (simp add: gained_def distrib_right add_divide_distrib split: option.splits)

lemma gained_zero: "gained g a t 0 s = s"
  by (rule ext) (simp add: gained_def split: option.splits)

lemma tick_nonloop:
  "loop pr = None \<Longrightarrow> distinct (statList g) \<Longrightarrow> cached_ticks pr \<noteq> 0 \<Longrightarrow>
   tick g pr st = Some (Inr (True, st\<lparr>st_stats := gained g (action pr) (cached_ticks pr) 1 (st_stats st)\<rparr>))"
  by (simp add: tick_def exp_gain_distinct)

lemma predict_loop_nonloop:
  assumes "loop pr = None" and "distinct (statList g)"
  shows "int k + int d = cached_ticks pr \<Longrightarrow> 0 < cached_ticks pr \<Longrightarrow>
         predict_loop g pr st k = Some (Inr (after_ticks g pr d st, k + d))"
proof (induction d arbitrary: st k)
  case 0
  then show ?case
    by (subst predict_loop.simps) (simp add: ticks_nonzero after_ticks_def gained_zero)
next
  case (Suc d)
  have nz: "cached_ticks pr \<noteq> 0" using Suc.prems by simp
  have lt: "int k < cached_ticks pr" using Suc.prems by simp
  have IH: "predict_loop g pr st' (Suc k) = Some (Inr (after_ticks g pr d st', Suc k + d))" for st'
    using Suc.IH [of "Suc k" st'] Suc.prems by simp
  have step: "after_ticks g pr d
      ((spend_mana st)\<lparr>st_stats := gained g (action pr) (cached_ticks pr) 1 (st_stats (spend_mana st))\<rparr>)
      = after_ticks g pr (Suc d) st"
    by (simp add: after_ticks_def spend_mana_def gained_add add.commute)
  show ?case
    by (subst predict_loop.simps)
       (simp add: ticks_nonzero [OF nz] lt tick_nonloop [OF assms nz] IH step)
qed

lemma predict_nonloop:
  assumes "loop pr = None" and "distinct (statList g)"
    and "updateTicks g pr (Some (action pr)) (Some (st_stats st)) = Inr (t, pr')" and "0 < t"
  shows "predict g pr st = Some (Inr (pr', after_ticks g pr' (nat t) st))"
proof -
  have pr': "pr' = pr\<lparr>cached_ticks := t\<rparr>"
    using assms(3) by (auto simp: updateTicks_defined)
  have "predict_loop g pr' st 0 = Some (Inr (after_ticks g pr' (nat t) st, 0 + nat t))"
    by (rule predict_loop_nonloop) (use assms pr' in simp_all)
  then show ?thesis by (simp add: predict_def assms(3))
qed

lemma after_ticks_resources:
  "st_resources (after_ticks g pr n st) = (st_resources st)\<lparr>mana := mana (st_resources st) - real n\<rparr>"
  by (simp add: after_ticks_def)

lemma after_ticks_stats:
  "st_stats (after_ticks g pr n st) = gained g (action pr) (cached_ticks pr) (real n) (st_stats st)"
  by (simp add: after_ticks_def)

text \<open>
  Claim C9. For an action without a loop whose tick count is positive, the run adds to
  every stat that has a weight and an entry in the stats table the weight times the
  experience multiplier times the mana cost times the bonus: the sum of as many equal
  contributions as there are ticks. The stats table holds recognised stats only, as the
  one \<open>update\<close> creates does, and no stat is listed twice.
\<close>

theorem nonloop_exp_total:
  assumes "loop pr = None" and "distinct (statList g)"
    and "dom (st_stats st) \<subseteq> set (statList g)"
    and "updateTicks g pr (Some (action pr)) (Some (st_stats st)) = Inr (t, pr')" and "0 < t"
    and "stats (action pr) i = Some w" and "st_stats st i = Some x"
  shows "\<exists>st'. predict g pr st = Some (Inr (pr', st'))
           \<and> st_stats st' i
               = Some (x + w * expMult (action pr) * manaCost (action pr) * getTotalBonusXP g i)"
proof -
  have pr': "pr' = pr\<lparr>cached_ticks := t\<rparr>"
    using assms(4) by (auto simp: updateTicks_defined)
  have i: "i \<in> set (statList g)" using assms(3,7) by auto
  have t: "real_of_int (int (nat t)) = real_of_int t" using assms(5) by simp
  have "real_of_int t * (w * expMult (action pr) * (manaCost (action pr) / real_of_int t) * getTotalBonusXP g i)
      = w * expMult (action pr) * manaCost (action pr) * getTotalBonusXP g i"
    using assms(5) by simp
  then have "st_stats (after_ticks g pr' (nat t) st) i
      = Some (x + w * expMult (action pr) * manaCost (action pr) * getTotalBonusXP g i)"
    using assms(5,6,7) i by (simp add: after_ticks_def gained_def pr')
  then show ?thesis using predict_nonloop [OF assms(1,2,4,5)] by simp
qed

theorem nonloop_exp_total_witness:
  "\<exists>st'. predict sample_globals (smash_pots pots_action) fresh_state
            = Some (Inr ((smash_pots pots_action)\<lparr>cached_ticks := 50\<rparr>, st'))
         \<and> st_stats st' ''Spd'' = Some 40"
proof -
  have h1: "loop (smash_pots pots_action) = None"
    by (simp add: smash_pots_def new_prediction_def)
  have h2: "distinct (statList sample_globals)"
    by (simp add: sample_globals_def)
  have h3: "dom (st_stats fresh_state) \<subseteq> set (statList sample_globals)"
    by (auto simp: fresh_stats sample_globals_def split: if_splits)
  have h5: "(0::int) < 50" by simp
  have h6: "stats (action (smash_pots pots_action)) ''Spd'' = Some (4 / 5)"
    by (simp add: smash_pots_def new_prediction_def pots_action_def)
  have h7: "st_stats fresh_state ''Spd'' = Some 0"
    by (simp add: fresh_stats)
  show ?thesis
    using nonloop_exp_total [OF h1 h2 h3 pots_ticks h5 h6 h7]
    by (simp add: smash_pots_def new_prediction_def pots_action_def sample_globals_def)
qed

section \<open>The number of ticks of a run\<close>








section \<open>The progression of a loop\<close>

lemma int_range_first:
  fixes f :: "int \<Rightarrow> real"
  shows "s < s' \<Longrightarrow> (\<Sum>j\<in>{s..<s'}. f j) = f s + (\<Sum>j\<in>{s + 1..<s'}. f j)"
proof -
  assume lt: "s < s'"
  then have "{s..<s'} = insert s {s + 1..<s'}" by auto
  then show ?thesis by simp
qed

lemma pre_walk_inv:
  "pre_walk c pg s = Some y \<Longrightarrow>
   s \<le> snd y \<and> pg = fst y + (\<Sum>j\<in>{s..<snd y}. c j) \<and> fst y < c (snd y)
   \<and> (0 \<le> pg \<longrightarrow> 0 \<le> fst y)"
proof (induction rule: pre_walk.raw_induct [rotated 1, consumes 1, case_names step])
  case (step walk c pg s y)
  show ?case
  proof (cases "c s \<le> pg")
    case False
    then show ?thesis using step(2) by auto
  next
    case True
    then have rec: "walk c (pg - c s) (s + 1) = Some y"
      using step(2) by simp
    have ih: "s + 1 \<le> snd y \<and> pg - c s = fst y + (\<Sum>j\<in>{s + 1..<snd y}. c j)
        \<and> fst y < c (snd y) \<and> (0 \<le> pg - c s \<longrightarrow> 0 \<le> fst y)"
      using step(1) [OF rec] .
    then have "s < snd y" by simp
    from int_range_first [OF this, of c] ih True show ?thesis by simp
  qed
qed

lemma post_walk_inv:
  "post_walk a lp mx p r pg s = Some y \<Longrightarrow> walk_inv a lp mx p pg s y"
proof (induction rule: post_walk.raw_induct [rotated 1, consumes 1, case_names step])
  case (step walk a lp mx p r pg s y)
  show ?case
  proof (cases "loop_cost lp p a s \<le> pg \<and> below_max mx s")
    case False
    then show ?thesis using step(2) by (auto simp: walk_inv_def)
  next
    case True
    obtain p1 r1 s1 where wb: "walk_body a lp (p, r, s) = (p1, r1, s1)"
      by (cases "walk_body a lp (p, r, s)")
    have rec: "walk a lp mx p1 r1 (pg - loop_cost lp p1 a s1) (s1 + 1) = Some y"
      using step(2) True wb by simp
    have ih: "walk_inv a lp mx p1 (pg - loop_cost lp p1 a s1) (s1 + 1) y"
      using step(1) [OF rec] .
    obtain p' r' pg' s' where y: "y = (p', r', pg', s')" by (cases y)
    show ?thesis
    proof (cases "int (segments a) - 1 \<le> s")
      case False
      then have e: "p1 = p" "s1 = s" using wb by (auto simp: walk_body_def Let_def)
      have "total p' = total p \<Longrightarrow> s < s'" using ih by (simp add: walk_inv_def y e)
      from int_range_first [OF this, of "loop_cost lp p a"] ih True
      show ?thesis by (auto simp: walk_inv_def y e)
    next
      case last: True
      then have e: "p1 = p\<lparr>progress := 0, completed := completed p + int (segments a),
                            total := total p + 1\<rparr>"
        using wb by (auto simp: walk_body_def Let_def)
      show ?thesis using ih by (auto simp: walk_inv_def y e algebra_simps)
    qed
  qed
qed

lemma tick_loop_walks:
  assumes "tick_loop g pr lp st = Some (Inr (ap, seg, st'))"
    and "st_progress st (name pr) = Some p"
  shows "\<exists>p' r' pg1 s1 pg2.
           st' = st\<lparr>st_resources := r', st_progress := (st_progress st)(name pr \<mapsto> p')\<rparr>
         \<and> pre_walk (loop_cost lp p (action pr)) (progress p) 0 = Some (pg1, s1)
         \<and> post_walk (action pr) lp (max_segments (action pr) lp)
               (p\<lparr>progress := progress p + ap\<rparr>) (st_resources st) (pg1 + ap) s1
             = Some (p', r', pg2, seg)"
  using assms
  by (auto simp: tick_loop_def Let_def split: option.splits sum.splits prod.splits)

lemma tick_loop_of_tick:
  assumes "tick g pr st = Some (Inr (c, st'))" and "loop pr = Some lp"
  shows "\<exists>s' ap seg. exp_gain g pr (action pr) (st_stats st) = Inr s'
         \<and> tick_loop g pr lp (st\<lparr>st_stats := s'\<rparr>) = Some (Inr (ap, seg, st'))
         \<and> c = (ap \<noteq> 0 \<and> below_max (max_segments (action pr) lp) seg)"
  using assms
  by (auto simp: tick_def split: option.splits sum.splits prod.splits)

text \<open>
  Claim C6. Across a tick of a loop action, \<open>total\<close> grows by some number of loops
  and \<open>completed\<close> by that number times the segment count: the two fields change
  together, by these amounts, and neither decreases.
\<close>

theorem completed_follows_total:
  assumes "tick g pr st = Some (Inr (c, st'))" and "loop pr = Some lp"
    and "st_progress st (name pr) = Some p"
  shows "\<exists>p' k. st_progress st' (name pr) = Some p'
           \<and> total p' = total p + int k
           \<and> completed p' = completed p + int k * int (segments (action pr))"
proof -
  from tick_loop_of_tick [OF assms(1,2)] obtain s' ap seg where
    tl: "tick_loop g pr lp (st\<lparr>st_stats := s'\<rparr>) = Some (Inr (ap, seg, st'))" by blast
  have sp: "st_progress (st\<lparr>st_stats := s'\<rparr>) (name pr) = Some p" using assms(3) by simp
  from tick_loop_walks [OF tl sp] obtain p' r' pg1 s1 pg2 where
    st': "st_progress st' (name pr) = Some p'"
    and pw: "post_walk (action pr) lp (max_segments (action pr) lp)
               (p\<lparr>progress := progress p + ap\<rparr>) (st_resources (st\<lparr>st_stats := s'\<rparr>)) (pg1 + ap) s1
             = Some (p', r', pg2, seg)"
    by auto
  from post_walk_inv [OF pw] have
    le: "total p \<le> total p'"
    and co: "completed p' - completed p = (total p' - total p) * int (segments (action pr))"
    by (simp_all add: walk_inv_def)
  define k where "k = nat (total p' - total p)"
  have "total p' = total p + int k" using le by (simp add: k_def)
  moreover have "completed p' = completed p + int k * int (segments (action pr))"
    using co le by (simp add: k_def)
  ultimately show ?thesis using st' by blast
qed

theorem completed_follows_total_witness:
  "tick sample_globals (steady\<lparr>cached_ticks := 5\<rparr>) st28
     = Some (Inr (True, st28\<lparr>st_resources := \<lparr>mana = 450, others = Map.empty\<rparr>,
                           st_stats := [''Spd'' \<mapsto> 0, ''Str'' \<mapsto> 1],
                           st_progress := [''Steady'' \<mapsto> \<lparr>progress = 0, completed = 3, total = 1\<rparr>]\<rparr>))
   \<and> (\<exists>k. (1::int) = 0 + int k \<and> (3::int) = 0 + int k * int (segments sample_action))"
proof -
  have ev: "tick sample_globals (steady\<lparr>cached_ticks := 5\<rparr>) st28
     = Some (Inr (True, st28\<lparr>st_resources := \<lparr>mana = 450, others = Map.empty\<rparr>,
                           st_stats := [''Spd'' \<mapsto> 0, ''Str'' \<mapsto> 1],
                           st_progress := [''Steady'' \<mapsto> \<lparr>progress = 0, completed = 3, total = 1\<rparr>]\<rparr>))"
    by (simp add: st28_def sample_defs tick_defs)
  have lp: "loop (steady\<lparr>cached_ticks := 5\<rparr>) = Some steady_loop"
    by (simp add: steady_def new_prediction_def)
  have sp: "st_progress st28 (name (steady\<lparr>cached_ticks := 5\<rparr>))
     = Some \<lparr>progress = 28, completed = 0, total = 0\<rparr>"
    by (simp add: st28_def sample_defs)
  have nm: "name (steady\<lparr>cached_ticks := 5\<rparr>) = ''Steady''"
    and ac: "action (steady\<lparr>cached_ticks := 5\<rparr>) = sample_action"
    by (simp_all add: steady_def new_prediction_def)
  from completed_follows_total [OF ev lp sp]
  have "\<exists>k. (1::int) = 0 + int k \<and> (3::int) = 0 + int k * int (segments sample_action)"
    unfolding nm ac by simp
  then show ?thesis using ev by blast
qed

text \<open>
  Claim C4, as the code has it. The progress kept in the progression is counted from the
  start of the current loop, not of the current segment. After a tick that completed a
  loop it is zero. After any other tick it is the progress before plus the progress of
  the tick; unless the maximum stopped the walk it is below the summed cost of the
  segments of the loop up to and including the current one, and it is at least the
  summed cost of the segments before the current one when the progress before and the
  progress of the tick are not negative. The cost of a segment is taken not to read the
  \<open>progress\<close> field, as no cost of the catalogue does.
\<close>

theorem progress_within_loop:
  assumes "tick_loop g pr lp st = Some (Inr (ap, seg, st'))"
    and "st_progress st (name pr) = Some p"
    and "\<And>q x. loop_cost lp (q\<lparr>progress := x\<rparr>) = loop_cost lp q"
  shows "\<exists>p'. st_progress st' (name pr) = Some p'
           \<and> (total p' \<noteq> total p \<longrightarrow> progress p' = 0)
           \<and> (total p' = total p \<longrightarrow>
                progress p' = progress p + ap \<and> 0 \<le> seg
                \<and> (below_max (max_segments (action pr) lp) seg \<longrightarrow>
                     progress p' < (\<Sum>j\<in>{0..seg}. loop_cost lp p' (action pr) j))
                \<and> (0 \<le> progress p \<and> 0 \<le> ap \<longrightarrow>
                     (\<Sum>j\<in>{0..<seg}. loop_cost lp p' (action pr) j) \<le> progress p'))"
proof -
  let ?a = "action pr"
  let ?pa = "p\<lparr>progress := progress p + ap\<rparr>"
  from tick_loop_walks [OF assms(1,2)] obtain p' r' pg1 s1 pg2 where
    st': "st_progress st' (name pr) = Some p'"
    and pre: "pre_walk (loop_cost lp p ?a) (progress p) 0 = Some (pg1, s1)"
    and post: "post_walk ?a lp (max_segments ?a lp) ?pa (st_resources st) (pg1 + ap) s1
             = Some (p', r', pg2, seg)"
    by auto
  from pre_walk_inv [OF pre] have
    s1: "0 \<le> s1" and p1: "progress p = pg1 + (\<Sum>j\<in>{0..<s1}. loop_cost lp p ?a j)"
    and n1: "0 \<le> progress p \<longrightarrow> 0 \<le> pg1"
    by simp_all
  from post_walk_inv [OF post] have
    z: "total p' \<noteq> total p \<longrightarrow> progress p' = 0"
    and same: "total p' = total p \<longrightarrow>
          p' = ?pa \<and> s1 \<le> seg \<and> pg1 + ap = pg2 + (\<Sum>j\<in>{s1..<seg}. loop_cost lp ?pa ?a j)
          \<and> (0 \<le> pg1 + ap \<longrightarrow> 0 \<le> pg2)"
    and stop: "\<not> (loop_cost lp p' ?a seg \<le> pg2 \<and> below_max (max_segments ?a lp) seg)"
    by (simp_all add: walk_inv_def)
  have "progress p' = progress p + ap \<and> 0 \<le> seg
      \<and> (below_max (max_segments ?a lp) seg \<longrightarrow>
            progress p' < (\<Sum>j\<in>{0..seg}. loop_cost lp p' ?a j))
      \<and> (0 \<le> progress p \<and> 0 \<le> ap \<longrightarrow> (\<Sum>j\<in>{0..<seg}. loop_cost lp p' ?a j) \<le> progress p')"
    if eq: "total p' = total p"
  proof -
    from same eq have p': "p' = ?pa" and le: "s1 \<le> seg"
      and p2: "pg1 + ap = pg2 + (\<Sum>j\<in>{s1..<seg}. loop_cost lp ?pa ?a j)"
      and n2: "0 \<le> pg1 + ap \<longrightarrow> 0 \<le> pg2"
      by simp_all
    have c: "loop_cost lp p' = loop_cost lp p" "loop_cost lp ?pa = loop_cost lp p"
      using assms(3) by (simp_all add: p')
    have split: "(\<Sum>j\<in>{0..<seg}. loop_cost lp p ?a j)
        = (\<Sum>j\<in>{0..<s1}. loop_cost lp p ?a j) + (\<Sum>j\<in>{s1..<seg}. loop_cost lp p ?a j)"
    proof -
      have u: "{0..<seg} = {0..<s1} \<union> {s1..<seg}" using s1 le by auto
      have d: "{0..<s1} \<inter> {s1..<seg} = {}" by auto
      show ?thesis unfolding u by (rule sum.union_disjoint) (simp_all add: d)
    qed
    have p2': "pg1 + ap = pg2 + (\<Sum>j\<in>{s1..<seg}. loop_cost lp p ?a j)"
      using p2 by (simp only: c)
    have pp: "progress p' = progress p + ap" by (simp add: p')
    have whole: "progress p' = pg2 + (\<Sum>j\<in>{0..<seg}. loop_cost lp p ?a j)"
      unfolding pp using p1 p2' split by linarith
    have "{0..seg} = insert seg {0..<seg}" using s1 le by auto
    then have upto: "(\<Sum>j\<in>{0..seg}. loop_cost lp p ?a j)
        = loop_cost lp p ?a seg + (\<Sum>j\<in>{0..<seg}. loop_cost lp p ?a j)"
      by simp
    have stop': "\<not> (loop_cost lp p ?a seg \<le> pg2 \<and> below_max (max_segments ?a lp) seg)"
      using stop by (simp add: c(1))
    have "0 \<le> seg" using s1 le by simp
    moreover have "progress p' < (\<Sum>j\<in>{0..seg}. loop_cost lp p' ?a j)"
      if "below_max (max_segments ?a lp) seg"
      unfolding c using whole upto stop' that by linarith
    moreover have "(\<Sum>j\<in>{0..<seg}. loop_cost lp p' ?a j) \<le> progress p'"
      if "0 \<le> progress p \<and> 0 \<le> ap"
      unfolding c using whole n1 n2 that by linarith
    ultimately show ?thesis using pp by blast
  qed
  then show ?thesis using st' z by blast
qed

theorem progress_within_loop_witness:
  "tick_loop sample_globals (steady\<lparr>cached_ticks := 5\<rparr>) steady_loop st8
     = Some (Inr (4, 1, st8\<lparr>st_resources := \<lparr>mana = 450, others = Map.empty\<rparr>,
                           st_progress := [''Steady'' \<mapsto> \<lparr>progress = 12, completed = 0, total = 0\<rparr>]\<rparr>))
   \<and> (12::real) < (\<Sum>j\<in>{0..1}. loop_cost steady_loop \<lparr>progress = 12, completed = 0, total = 0\<rparr>
                                  sample_action j)
   \<and> (\<Sum>j\<in>{0..<1}. loop_cost steady_loop \<lparr>progress = 12, completed = 0, total = 0\<rparr>
                       sample_action j) \<le> (12::real)"
proof -
  have ev: "tick_loop sample_globals (steady\<lparr>cached_ticks := 5\<rparr>) steady_loop st8
     = Some (Inr (4, 1, st8\<lparr>st_resources := \<lparr>mana = 450, others = Map.empty\<rparr>,
                           st_progress := [''Steady'' \<mapsto> \<lparr>progress = 12, completed = 0, total = 0\<rparr>]\<rparr>))"
    by (simp add: st8_def sample_defs tick_defs)
  have sp: "st_progress st8 (name (steady\<lparr>cached_ticks := 5\<rparr>))
     = Some \<lparr>progress = 8, completed = 0, total = 0\<rparr>"
    by (simp add: st8_def sample_defs)
  have ind: "loop_cost steady_loop (q\<lparr>progress := x\<rparr>) = loop_cost steady_loop q" for q x
    by (simp add: steady_loop_def)
  have nm: "name (steady\<lparr>cached_ticks := 5\<rparr>) = ''Steady''"
    and ac: "action (steady\<lparr>cached_ticks := 5\<rparr>) = sample_action"
    by (simp_all add: steady_def new_prediction_def)
  have bm: "below_max (max_segments sample_action steady_loop) 1"
    by (simp add: below_max_def max_segments_def steady_loop_def)
  from progress_within_loop [OF ev sp ind] bm
  have "(12::real) < (\<Sum>j\<in>{0..1}. loop_cost steady_loop \<lparr>progress = 12, completed = 0, total = 0\<rparr>
                                  sample_action j)
   \<and> (\<Sum>j\<in>{0..<1}. loop_cost steady_loop \<lparr>progress = 12, completed = 0, total = 0\<rparr>
                       sample_action j) \<le> (12::real)"
    unfolding nm ac by simp
  then show ?thesis using ev by blast
qed

text \<open>
  The claim as stated fails: after one run of Steady two segments are crossed, the
  progress is 20 and the segment under way costs 10.
\<close>

theorem progress_exceeds_segment_counterexample:
  "final_progression
     (update sample_globals [''Steady'' \<mapsto> steady] [\<lparr>la_name = ''Steady'', loops = 1\<rparr>])
     ''Steady''
     = Some \<lparr>progress = 20, completed = 0, total = 0\<rparr>
   \<and> loop_cost steady_loop \<lparr>progress = 20, completed = 0, total = 0\<rparr> sample_action 2 = 10"
  by code_simp

lemma post_walk_segment:
  "post_walk a lp mx p r pg s = Some y \<Longrightarrow>
   1 \<le> segments a \<longrightarrow> 0 \<le> s \<longrightarrow> s < int (segments a) \<longrightarrow>
   0 \<le> snd (snd (snd y)) \<and> snd (snd (snd y)) < int (segments a)"
proof (induction rule: post_walk.raw_induct [rotated 1, consumes 1, case_names step])
  case (step walk a lp mx p r pg s y)
  show ?case
  proof (cases "loop_cost lp p a s \<le> pg \<and> below_max mx s")
    case False
    then show ?thesis using step(2) by auto
  next
    case True
    obtain p1 r1 s1 where wb: "walk_body a lp (p, r, s) = (p1, r1, s1)"
      by (cases "walk_body a lp (p, r, s)")
    have rec: "walk a lp mx p1 r1 (pg - loop_cost lp p1 a s1) (s1 + 1) = Some y"
      using step(2) True wb by simp
    have nxt: "1 \<le> segments a \<Longrightarrow> 0 \<le> s \<Longrightarrow> s < int (segments a) \<Longrightarrow>
        0 \<le> s1 + 1 \<and> s1 + 1 < int (segments a)"
      using wb by (auto simp: walk_body_def Let_def split: if_splits)
    from step(1) [OF rec] nxt show ?thesis by blast
  qed
qed

text \<open>
  Claim C7. The test against the maximum does not stop a run at the maximum. The segment
  it compares with the maximum times the segment count is counted within the current
  loop, and every completed loop takes the segment count off it. So for a maximum of at
  least one loop, a tick that starts at a segment of the loop ends below the bound,
  however many loops are completed, and it continues whenever its progress is not zero.
\<close>

theorem cap_never_reached:
  assumes "loop pr = Some lp" and "loop_max lp = Some mx"
    and "1 \<le> mx (action pr)" and "1 \<le> segments (action pr)"
    and "st_progress st (name pr) = Some p"
    and "pre_walk (loop_cost lp p (action pr)) (progress p) 0 = Some (pg1, s1)"
    and "s1 < int (segments (action pr))"
    and "tick g pr st = Some (Inr (continue, st'))"
  shows "\<exists>s' ap seg.
           tick_loop g pr lp (st\<lparr>st_stats := s'\<rparr>) = Some (Inr (ap, seg, st'))
         \<and> seg < mx (action pr) * int (segments (action pr))
         \<and> continue = (ap \<noteq> 0)"
proof -
  let ?a = "action pr"
  from tick_loop_of_tick [OF assms(8,1)] obtain s' ap seg where
    tl: "tick_loop g pr lp (st\<lparr>st_stats := s'\<rparr>) = Some (Inr (ap, seg, st'))"
    and c: "continue = (ap \<noteq> 0 \<and> below_max (max_segments ?a lp) seg)"
    by blast
  have sp: "st_progress (st\<lparr>st_stats := s'\<rparr>) (name pr) = Some p" using assms(5) by simp
  from tick_loop_walks [OF tl sp] assms(6) obtain p' r' pg2 where
    post: "post_walk ?a lp (max_segments ?a lp) (p\<lparr>progress := progress p + ap\<rparr>)
             (st_resources (st\<lparr>st_stats := s'\<rparr>)) (pg1 + ap) s1 = Some (p', r', pg2, seg)"
    by auto
  from pre_walk_inv [OF assms(6)] have s1: "0 \<le> s1" by simp
  from post_walk_segment [OF post] assms(4,7) s1 have seg: "0 \<le> seg" "seg < int (segments ?a)"
    by simp_all
  have "1 * int (segments ?a) \<le> mx ?a * int (segments ?a)"
    using assms(3) by (intro mult_right_mono) simp_all
  then have lt: "seg < mx ?a * int (segments ?a)" using seg by linarith
  then have "below_max (max_segments ?a lp) seg"
    by (simp add: below_max_def max_segments_def assms(2))
  then show ?thesis using tl c lt by blast
qed

theorem cap_never_reached_witness:
  "st_progress capped_done ''Capped'' = Some \<lparr>progress = 0, completed = 3, total = 1\<rparr>
   \<and> tick sample_globals (capped\<lparr>cached_ticks := 5\<rparr>) capped_done
       = Some (Inr (True, capped_done\<lparr>st_stats := [''Spd'' \<mapsto> 0, ''Str'' \<mapsto> 1],
                             st_progress := [''Capped'' \<mapsto> \<lparr>progress = 4, completed = 3, total = 1\<rparr>]\<rparr>))
   \<and> (\<exists>s' ap seg.
         tick_loop sample_globals (capped\<lparr>cached_ticks := 5\<rparr>) capped_loop
             (capped_done\<lparr>st_stats := s'\<rparr>)
           = Some (Inr (ap, seg,
               capped_done\<lparr>st_stats := [''Spd'' \<mapsto> 0, ''Str'' \<mapsto> 1],
                             st_progress := [''Capped'' \<mapsto> \<lparr>progress = 4, completed = 3, total = 1\<rparr>]\<rparr>))
         \<and> seg < 3 \<and> ap \<noteq> 0)
   \<and> final_progression
         (update sample_globals [''Capped'' \<mapsto> capped] [\<lparr>la_name = ''Capped'', loops = 4\<rparr>])
         ''Capped''
       = Some \<lparr>progress = 16, completed = 6, total = 2\<rparr>
   \<and> mana_total
         (update sample_globals [''Capped'' \<mapsto> capped] [\<lparr>la_name = ''Capped'', loops = 4\<rparr>])
       = Some 20"
proof -
  let ?pr = "capped\<lparr>cached_ticks := 5\<rparr>"
  let ?st' = "capped_done\<lparr>st_stats := [''Spd'' \<mapsto> 0, ''Str'' \<mapsto> 1],
                 st_progress := [''Capped'' \<mapsto> \<lparr>progress = 4, completed = 3, total = 1\<rparr>]\<rparr>"
  have h1: "loop ?pr = Some capped_loop" by (simp add: capped_def new_prediction_def)
  have h2: "loop_max capped_loop = Some (\<lambda>a. 1)" by (simp add: capped_loop_def)
  have h3: "(1::int) \<le> (\<lambda>a. 1) (action ?pr)" by simp
  have h4: "1 \<le> segments (action ?pr)"
    by (simp add: capped_def new_prediction_def sample_action_def)
  have h5: "st_progress capped_done (name ?pr) = Some \<lparr>progress = 0, completed = 3, total = 1\<rparr>"
    by (simp add: capped_done_def capped_def new_prediction_def)
  have h6: "pre_walk (loop_cost capped_loop \<lparr>progress = 0, completed = 3, total = 1\<rparr> (action ?pr))
        (progress \<lparr>progress = 0, completed = 3, total = 1\<rparr>) 0 = Some (0, 0)"
    by (simp add: capped_loop_def pre_walk.simps)
  have h7: "(0::int) < int (segments (action ?pr))"
    by (simp add: capped_def new_prediction_def sample_action_def)
  have h8: "tick sample_globals ?pr capped_done = Some (Inr (True, ?st'))"
    by (simp add: capped_done_def sample_defs tick_defs)
  have run: "final_progression
         (update sample_globals [''Capped'' \<mapsto> capped] [\<lparr>la_name = ''Capped'', loops = 4\<rparr>])
         ''Capped''
       = Some \<lparr>progress = 16, completed = 6, total = 2\<rparr>
     \<and> mana_total
         (update sample_globals [''Capped'' \<mapsto> capped] [\<lparr>la_name = ''Capped'', loops = 4\<rparr>])
       = Some 20"
    by code_simp
  have nm: "name ?pr = ''Capped''" by (simp add: capped_def new_prediction_def)
  have sg: "int (segments (action ?pr)) = 3"
    by (simp add: capped_def new_prediction_def sample_action_def)
  from cap_never_reached [OF h1 h2 h3 h4 h5 h6 h7 h8]
  have "\<exists>s' ap seg.
         tick_loop sample_globals ?pr capped_loop (capped_done\<lparr>st_stats := s'\<rparr>)
           = Some (Inr (ap, seg, ?st'))
         \<and> seg < 3 \<and> ap \<noteq> 0"
    unfolding sg by simp
  then show ?thesis using h5 h8 run unfolding nm by blast
qed

section \<open>The total and the validity\<close>

lemma ticks_effect: "ticks g (pr\<lparr>effect := f\<rparr>) = ticks g pr"
  by (simp add: ticks_def updateTicks_undefined)

lemma exp_each_effect: "exp_each g (pr\<lparr>effect := f\<rparr>) a s is = exp_each g pr a s is"
  by (induction "is" arbitrary: s) (simp_all add: ticks_effect split: option.splits sum.splits)

lemma tick_loop_effect: "tick_loop g (pr\<lparr>effect := f\<rparr>) lp st = tick_loop g pr lp st"
  by (simp add: tick_loop_def ticks_effect Let_def
      cong: option.case_cong sum.case_cong prod.case_cong)

lemma tick_effect: "tick g (pr\<lparr>effect := f\<rparr>) st = tick g pr st"
  by (simp add: tick_def exp_gain_def exp_each_effect tick_loop_effect
      cong: sum.case_cong option.case_cong)

lemma predict_loop_effect: "predict_loop g (pr\<lparr>effect := f\<rparr>) st k = predict_loop g pr st k"
proof (induction g pr st k rule: predict_loop.induct)
  case (1 g pr st k)
  show ?case
    by (subst predict_loop.simps [of g "pr\<lparr>effect := f\<rparr>"], subst predict_loop.simps [of g pr])
       (auto simp: ticks_effect tick_effect "1.IH" split: sum.splits option.splits)
qed

lemma predict_effect:
  "predict g pr st = Some (Inr (pr', st')) \<Longrightarrow>
   predict g (pr\<lparr>effect := f\<rparr>) st = Some (Inr (pr'\<lparr>effect := f\<rparr>, st'))"
proof -
  assume p: "predict g pr st = Some (Inr (pr', st'))"
  define t where "t = \<lceil>manaCost (action pr)
      * (\<Sum>i\<leftarrow>statList g. stat_share g (action pr) (st_stats st) i) - 1 / 1000000\<rceil>"
  have ut: "updateTicks g pr (Some (action pr)) (Some (st_stats st)) = Inr (t, pr\<lparr>cached_ticks := t\<rparr>)"
    by (simp add: updateTicks_defined t_def)
  have ut': "updateTicks g (pr\<lparr>effect := f\<rparr>) (Some (action pr)) (Some (st_stats st))
      = Inr (t, (pr\<lparr>cached_ticks := t\<rparr>)\<lparr>effect := f\<rparr>)"
    by (simp add: updateTicks_defined t_def)
  from p ut obtain n where
    pl: "predict_loop g (pr\<lparr>cached_ticks := t\<rparr>) st 0 = Some (Inr (st', n))"
    and pr': "pr' = pr\<lparr>cached_ticks := t\<rparr>"
    by (auto simp: predict_def split: option.splits sum.splits)
  show ?thesis
    unfolding predict_def by (simp add: ut' predict_loop_effect pl pr')
qed

text \<open>
  Claim C8. A repetition adds to the total the mana before it less the mana that its
  ticks left; the effect of the action is applied after that difference is taken. The
  total is therefore the same whatever the effect is.
\<close>

theorem total_counts_tick_mana:
  assumes "repetition g pr st total' isValid = Some (Inr (pr', st', total'', isValid'))"
  shows "\<exists>st1. predict g pr st = Some (Inr (pr', st1))
           \<and> total'' = total' + (mana (st_resources st) - mana (st_resources st1))
           \<and> st' = st1\<lparr>st_resources := apply_effect (effect pr) (st_resources st1)\<rparr>
           \<and> (\<forall>f. \<exists>st2. repetition g (pr\<lparr>effect := f\<rparr>) st total' isValid
                    = Some (Inr (pr'\<lparr>effect := f\<rparr>, st2, total'', isValid')))"
proof -
  from assms obtain st1 where
    p: "predict g pr st = Some (Inr (pr', st1))"
    and t: "total'' = total' + (mana (st_resources st) - mana (st_resources st1))"
    and s: "st' = st1\<lparr>st_resources := apply_effect (effect pr') (st_resources st1)\<rparr>"
    and v: "isValid' = (isValid \<and> 0 \<le> mana (st_resources st1))"
    by (auto simp: repetition_def split: option.splits sum.splits)
  have e: "effect pr' = effect pr"
    using p by (auto simp: predict_def updateTicks_defined split: option.splits sum.splits)
  have "\<exists>st2. repetition g (pr\<lparr>effect := f\<rparr>) st total' isValid
          = Some (Inr (pr'\<lparr>effect := f\<rparr>, st2, total'', isValid'))" for f
    using predict_effect [OF p, of f] by (simp add: repetition_def t v)
  then show ?thesis using p t s e by auto
qed

theorem total_counts_tick_mana_witness:
  "\<exists>pr' st'. repetition sample_globals (smash_pots pots_action) fresh_state 0 True
              = Some (Inr (pr', st', 50, True))
         \<and> mana (st_resources st') = 300
         \<and> (\<exists>st2. repetition sample_globals ((smash_pots pots_action)\<lparr>effect := None\<rparr>)
                     fresh_state 0 True
                   = Some (Inr (pr'\<lparr>effect := None\<rparr>, st2, 50, True)))"
proof -
  let ?p = "smash_pots pots_action"
  let ?p' = "?p\<lparr>cached_ticks := 50\<rparr>"
  let ?s1 = "after_ticks sample_globals ?p' 50 fresh_state"
  have h1: "loop ?p = None" by (simp add: smash_pots_def new_prediction_def)
  have h2: "distinct (statList sample_globals)" by (simp add: sample_globals_def)
  have p: "predict sample_globals ?p fresh_state = Some (Inr (?p', ?s1))"
    using predict_nonloop [OF h1 h2 pots_ticks] by simp
  have m: "mana (st_resources ?s1) = 200"
    by (simp add: after_ticks_def fresh_resources)
  have e: "effect ?p' = Some (\<lambda>r. r\<lparr>mana := mana r + 100\<rparr>)"
    by (simp add: smash_pots_def new_prediction_def)
  have rep: "repetition sample_globals ?p fresh_state 0 True
      = Some (Inr (?p', ?s1\<lparr>st_resources := apply_effect (effect ?p') (st_resources ?s1)\<rparr>, 50, True))"
    by (simp add: repetition_def p m fresh_resources)
  from total_counts_tick_mana [OF rep] obtain st2 where
    "repetition sample_globals (?p\<lparr>effect := None\<rparr>) fresh_state 0 True
       = Some (Inr (?p'\<lparr>effect := None\<rparr>, st2, 50, True))"
    by blast
  moreover have "mana (st_resources (?s1\<lparr>st_resources := apply_effect (effect ?p') (st_resources ?s1)\<rparr>)) = 300"
    by (simp add: e apply_effect_def m)
  ultimately show ?thesis using rep by blast
qed

lemma repetitions_add:
  "repetitions g pr st tot v (m + n) =
     (case repetitions g pr st tot v m of
        None \<Rightarrow> None
      | Some (Inl e) \<Rightarrow> Some (Inl e)
      | Some (Inr (pr1, st1, tot1, v1)) \<Rightarrow> repetitions g pr1 st1 tot1 v1 n)"
  by (induction m arbitrary: pr st tot v)
     (auto split: option.splits sum.splits)

lemma repetitions_last:
  assumes "repetitions g pr st tot v (Suc n) = Some (Inr (pr', st', tot', v'))"
  shows "\<exists>pr1 st1 tot1 v1 st2.
           repetitions g pr st tot v n = Some (Inr (pr1, st1, tot1, v1))
         \<and> predict g pr1 st1 = Some (Inr (pr', st2))
         \<and> v' = (v1 \<and> 0 \<le> mana (st_resources st2))"
proof -
  have "repetitions g pr st tot v (n + 1) = Some (Inr (pr', st', tot', v'))"
    using assms by simp
  then show ?thesis
    unfolding repetitions_add
    by (auto simp: repetition_def split: option.splits sum.splits)
qed

lemma repetitions_valid:
  "repetitions g pr st tot True n = Some (Inr (pr', st', tot', v')) \<Longrightarrow>
   v' = (\<not> (\<exists>m<n. went_negative g pr st tot m))"
proof (induction n arbitrary: pr' st' tot' v')
  case 0
  then show ?case by simp
next
  case (Suc n)
  from repetitions_last [OF Suc.prems] obtain pr1 st1 tot1 v1 st2 where
    r: "repetitions g pr st tot True n = Some (Inr (pr1, st1, tot1, v1))"
    and p: "predict g pr1 st1 = Some (Inr (pr', st2))"
    and v: "v' = (v1 \<and> 0 \<le> mana (st_resources st2))"
    by blast
  have ih: "v1 = (\<not> (\<exists>m<n. went_negative g pr st tot m))"
    using Suc.IH [OF r] .
  have here: "went_negative g pr st tot n = (mana (st_resources st2) < 0)"
    by (simp add: went_negative_def r p)
  have "(\<exists>m<Suc n. went_negative g pr st tot m)
      = ((\<exists>m<n. went_negative g pr st tot m) \<or> went_negative g pr st tot n)"
    by (auto simp: less_Suc_eq)
  then show ?case using ih here v by auto
qed

text \<open>
  Claim C1, as the code has it. The validity is local to a list entry: the row of an
  entry is marked invalid exactly when the mana is negative right after the ticks of one
  of the entry's own repetitions. Within the entry the mark is never taken back.
\<close>

theorem entry_validity:
  assumes "predictions (la_name x) = Some pr"
    and "entry g x (predictions, st, tot, rows) = Some (Inr (predictions', st', tot', rows'))"
  shows "rows' = rows @ [Some (st_resources st',
           \<not> (\<exists>m<loops x. went_negative g pr (ensure_progress g pr st) tot m))]"
proof -
  from assms obtain pr' v where
    r: "repetitions g pr (ensure_progress g pr st) tot True (loops x)
          = Some (Inr (pr', st', tot', v))"
    and rows: "rows' = rows @ [Some (st_resources st', v)]"
    by (auto simp: entry_def lookup_prediction_def split: option.splits sum.splits)
  from repetitions_valid [OF r] rows show ?thesis by simp
qed

theorem entry_validity_witness:
  "\<exists>P' st'. entry sample_globals \<lparr>la_name = ''Wander'', loops = 2\<rparr> (catalogue, fresh_state, 0, [])
              = Some (Inr (P', st', 500, [Some (st_resources st', False)]))
         \<and> (\<exists>m<2. went_negative sample_globals (wander wander_action)
                     (ensure_progress sample_globals (wander wander_action) fresh_state) 0 m)"
proof -
  let ?G = sample_globals
  let ?W = "wander wander_action"
  let ?W' = "?W\<lparr>cached_ticks := 250\<rparr>"
  let ?x = "\<lparr>la_name = ''Wander'', loops = 2\<rparr>"
  have d: "distinct (statList ?G)" by (simp add: sample_globals_def)
  have lw: "loop ?W = None" "loop ?W' = None" by (simp_all add: wander_def new_prediction_def)
  have ew: "effect ?W = None" by (simp add: wander_def new_prediction_def)
  have t1: "updateTicks ?G ?W (Some (action ?W)) (Some (st_stats fresh_state)) = Inr (250, ?W')"
    using ceiling_less_millionth [of 250]
    by (simp add: updateTicks_defined fresh_stats stat_share_def wander_def new_prediction_def
        wander_action_def sample_globals_def)
  define st1 where "st1 = after_ticks ?G ?W' 250 fresh_state"
  have p1: "predict ?G ?W fresh_state = Some (Inr (?W', st1))"
    using predict_nonloop [OF lw(1) d t1] by (simp add: st1_def)
  have m1: "mana (st_resources st1) = 0"
    by (simp add: st1_def after_ticks_resources fresh_resources)
  have s1: "st_stats st1 ''Str'' = Some 0" "st_stats st1 ''Spd'' = Some 250"
    by (simp_all add: st1_def after_ticks_stats gained_def fresh_stats wander_def
        new_prediction_def wander_action_def sample_globals_def)
  have t2: "updateTicks ?G ?W' (Some (action ?W')) (Some (st_stats st1)) = Inr (250, ?W')"
    using ceiling_less_millionth [of 250]
    by (simp add: updateTicks_defined s1 stat_share_def wander_def new_prediction_def
        wander_action_def sample_globals_def)
  define st2 where "st2 = after_ticks ?G ?W' 250 st1"
  have p2: "predict ?G ?W' st1 = Some (Inr (?W', st2))"
    using predict_nonloop [OF lw(2) d t2] by (simp add: st2_def)
  have m2: "mana (st_resources st2) = - 250"
    by (simp add: st2_def after_ticks_resources m1)
  have c: "catalogue (la_name ?x) = Some ?W" by (simp add: catalogue_def)
  have e: "entry ?G ?x (catalogue, fresh_state, 0, [])
      = Some (Inr (catalogue(''Wander'' \<mapsto> ?W'), st2, 500, [Some (st_resources st2, False)]))"
    using c
    by (simp add: entry_def lookup_prediction_def ensure_progress_def lw numeral_2_eq_2 repetition_def p1 p2 m1 m2 ew
        apply_effect_def fresh_resources)
  from entry_validity [OF c e] have
    "\<exists>m<2. went_negative ?G ?W (ensure_progress ?G ?W fresh_state) 0 m"
    by simp
  then show ?thesis using e by blast
qed

text \<open>
  The claim as stated fails: Wander uses all the mana, the first Smash Pots drives it to
  -50 and is marked invalid, its effect brings 100, and the second Smash Pots ends at
  zero and is marked valid again.
\<close>

theorem validity_recovers_counterexample:
  "validity_flags
     (update sample_globals catalogue
        [\<lparr>la_name = ''Wander'', loops = 1\<rparr>,
         \<lparr>la_name = ''Smash Pots'', loops = 1\<rparr>,
         \<lparr>la_name = ''Smash Pots'', loops = 1\<rparr>])
   = [Some True, Some False, Some True]"
proof -
  let ?G = sample_globals
  let ?W = "wander wander_action"
  let ?W' = "?W\<lparr>cached_ticks := 250\<rparr>"
  let ?P = "smash_pots pots_action"
  let ?P' = "?P\<lparr>cached_ticks := 50\<rparr>"
  define st0 where "st0 = initial_state ?G [''mana'', ''mana'']"
  have r0: "st_resources st0 = \<lparr>mana = 250, others = Map.empty\<rparr>"
    by (simp add: st0_def initial_state_def init_resource_def)
  have s0: "st_stats st0 = [''Str'' \<mapsto> 0, ''Spd'' \<mapsto> 0]"
    by (simp add: st0_def initial_state_def sample_globals_def)
  have g0: "st_progress st0 = Map.empty"
    by (simp add: st0_def initial_state_def)
  have d: "distinct (statList ?G)" by (simp add: sample_globals_def)
  have lw: "loop ?W = None" by (simp add: wander_def new_prediction_def)
  have lp: "loop ?P = None" by (simp add: smash_pots_def new_prediction_def)
  have lp': "loop ?P' = None" by (simp add: smash_pots_def new_prediction_def)
  have ew: "effect ?W' = None" by (simp add: wander_def new_prediction_def)
  have ep: "effect ?P' = Some (\<lambda>r. r\<lparr>mana := mana r + 100\<rparr>)"
    by (simp add: smash_pots_def new_prediction_def)
  have aw: "action ?W = wander_action" "action ?W' = wander_action"
    by (simp_all add: wander_def new_prediction_def)
  have ap: "action ?P = pots_action" "action ?P' = pots_action"
    by (simp_all add: smash_pots_def new_prediction_def)
  \<comment> \<open>Wander: 250 ticks, the mana falls to zero.\<close>
  have t1: "updateTicks ?G ?W (Some (action ?W)) (Some (st_stats st0)) = Inr (250, ?W')"
    using ceiling_less_millionth [of 250]
    by (simp add: updateTicks_defined s0 stat_share_def wander_def new_prediction_def
        wander_action_def sample_globals_def)
  define st1 where "st1 = after_ticks ?G ?W' 250 st0"
  have p1: "predict ?G ?W st0 = Some (Inr (?W', st1))"
    using predict_nonloop [OF lw d t1] by (simp add: st1_def)
  have m1: "mana (st_resources st1) = 0"
    by (simp add: st1_def after_ticks_resources r0)
  have s1: "st_stats st1 ''Str'' = Some 0" "st_stats st1 ''Spd'' = Some 250"
    by (simp_all add: st1_def after_ticks_stats gained_def s0 wander_def new_prediction_def
        wander_action_def sample_globals_def)
  \<comment> \<open>Smash Pots: 50 ticks, the mana falls to -50, the effect lifts it to 50.\<close>
  have t2: "updateTicks ?G ?P (Some (action ?P)) (Some (st_stats st1)) = Inr (50, ?P')"
    using ceiling_less_millionth [of 50]
    by (simp add: updateTicks_defined s1 stat_share_def smash_pots_def new_prediction_def
        pots_action_def sample_globals_def)
  define st2 where "st2 = after_ticks ?G ?P' 50 st1"
  have p2: "predict ?G ?P st1 = Some (Inr (?P', st2))"
    using predict_nonloop [OF lp d t2] by (simp add: st2_def)
  have m2: "mana (st_resources st2) = - 50"
    by (simp add: st2_def after_ticks_resources m1)
  define st2' where "st2' = st2\<lparr>st_resources := apply_effect (effect ?P) (st_resources st2)\<rparr>"
  have m2': "mana (st_resources st2') = 50"
    by (simp add: st2'_def smash_pots_def new_prediction_def apply_effect_def m2)
  have s2: "st_stats st2' ''Str'' = Some 10" "st_stats st2' ''Spd'' = Some 290"
    by (simp_all add: st2'_def st2_def after_ticks_stats gained_def s1 smash_pots_def
        new_prediction_def pots_action_def sample_globals_def)
  \<comment> \<open>Smash Pots again: the mana falls to zero, which is valid.\<close>
  have t3: "updateTicks ?G ?P' (Some (action ?P')) (Some (st_stats st2')) = Inr (50, ?P')"
    using ceiling_less_millionth [of 50]
    by (simp add: updateTicks_defined s2 stat_share_def smash_pots_def new_prediction_def
        pots_action_def sample_globals_def)
  define st3 where "st3 = after_ticks ?G ?P' 50 st2'"
  have p3: "predict ?G ?P' st2' = Some (Inr (?P', st3))"
    using predict_nonloop [OF lp' d t3] by (simp add: st3_def)
  have m3: "mana (st_resources st3) = 0"
    by (simp add: st3_def after_ticks_resources m2')
  define st3' where "st3' = st3\<lparr>st_resources := apply_effect (effect ?P) (st_resources st3)\<rparr>"
  define P1 where "P1 = catalogue(''Wander'' \<mapsto> ?W')"
  define P2 where "P2 = P1(''Smash Pots'' \<mapsto> ?P')"
  have c0: "catalogue ''Wander'' = Some ?W" by (simp add: catalogue_def)
  have c1: "P1 ''Smash Pots'' = Some ?P" by (simp add: P1_def catalogue_def)
  have c2: "P2 ''Smash Pots'' = Some ?P'" "P2(''Smash Pots'' \<mapsto> ?P') = P2"
    by (simp_all add: P2_def)
  have e1: "entry ?G \<lparr>la_name = ''Wander'', loops = 1\<rparr> (catalogue, st0, 0, [])
      = Some (Inr (P1, st1, 250, [Some (st_resources st1, True)]))"
    by (simp add: entry_def lookup_prediction_def c0 ensure_progress_def lw repetition_def p1 r0 m1 ew
        apply_effect_def P1_def)
  have e2: "entry ?G \<lparr>la_name = ''Smash Pots'', loops = 1\<rparr>
        (P1, st1, 250, [Some (st_resources st1, True)])
      = Some (Inr (P2, st2', 300,
                   [Some (st_resources st1, True), Some (st_resources st2', False)]))"
    by (simp add: entry_def lookup_prediction_def c1 ensure_progress_def lp repetition_def p2 m1 m2
        st2'_def P2_def)
  have e3: "entry ?G \<lparr>la_name = ''Smash Pots'', loops = 1\<rparr>
        (P2, st2', 300, [Some (st_resources st1, True), Some (st_resources st2', False)])
      = Some (Inr (P2, st3', 350,
                   [Some (st_resources st1, True), Some (st_resources st2', False),
                    Some (st_resources st3', True)]))"
    by (simp add: entry_def lookup_prediction_def c2 ensure_progress_def lp' repetition_def p3 m2' m3
        st3'_def)
  have a: "affected_names catalogue
        [\<lparr>la_name = ''Wander'', loops = 1\<rparr>,
         \<lparr>la_name = ''Smash Pots'', loops = 1\<rparr>,
         \<lparr>la_name = ''Smash Pots'', loops = 1\<rparr>] = [''mana'', ''mana'']"
    by (simp add: affected_names_def lookup_prediction_def catalogue_def wander_def smash_pots_def
        new_prediction_def)
  have "update ?G catalogue
        [\<lparr>la_name = ''Wander'', loops = 1\<rparr>,
         \<lparr>la_name = ''Smash Pots'', loops = 1\<rparr>,
         \<lparr>la_name = ''Smash Pots'', loops = 1\<rparr>]
      = Some (Inr (P2, st3', 350,
                   [Some (st_resources st1, True), Some (st_resources st2', False),
                    Some (st_resources st3', True)]))"
    unfolding update_def a st0_def [symmetric]
    by (simp only: entries.simps e1 e2 e3 option.case sum.case)
  then show ?thesis by (simp add: validity_flags_def)
qed

section \<open>Entries without a prediction\<close>

lemma entry_rows:
  "entry g x (P, st, tot, rows) = with_rows (\<lambda>rs. rows @ rs) (entry g x (P, st, tot, []))"
proof (cases "lookup_prediction P (la_name x)")
  case (Found pr)
  then show ?thesis
    by (auto simp: entry_def with_rows_def split: option.splits sum.splits)
next
  case Inherited
  then show ?thesis by (simp add: entry_def with_rows_def)
next
  case Missing
  then show ?thesis by (simp add: entry_def with_rows_def)
qed

lemma entries_rows:
  "entries g xs (P, st, tot, rows) = with_rows (\<lambda>rs. rows @ rs) (entries g xs (P, st, tot, []))"
proof (induction xs arbitrary: P st tot rows)
  case Nil
  show ?case by (simp add: with_rows_def)
next
  case (Cons x xs)
  show ?case
  proof (cases "entry g x (P, st, tot, [])")
    case None
    then show ?thesis by (simp add: entry_rows [of g x P st tot rows] with_rows_def)
  next
    case (Some res)
    show ?thesis
    proof (cases res)
      case (Inl e)
      then show ?thesis using Some
        by (simp add: entry_rows [of g x P st tot rows] with_rows_def)
    next
      case (Inr ps)
      obtain P1 st1 tot1 r1 where ps: "ps = (P1, st1, tot1, r1)" by (cases ps) auto
      have a: "entries g (x # xs) (P, st, tot, rows) = entries g xs (P1, st1, tot1, rows @ r1)"
        using Some Inr ps by (simp add: entry_rows [of g x P st tot rows] with_rows_def)
      have b: "entries g (x # xs) (P, st, tot, []) = entries g xs (P1, st1, tot1, r1)"
        using Some Inr ps by simp
      show ?thesis
        unfolding a b
        by (subst Cons.IH [of P1 st1 tot1 "rows @ r1"], subst Cons.IH [of P1 st1 tot1 r1])
           (auto simp: with_rows_def split: option.splits sum.splits)
    qed
  qed
qed

lemma entries_append:
  "entries g (xs @ ys) ps =
     (case entries g xs ps of
        None \<Rightarrow> None
      | Some (Inl e) \<Rightarrow> Some (Inl e)
      | Some (Inr ps') \<Rightarrow> entries g ys ps')"
  by (induction xs arbitrary: ps) (auto split: option.splits sum.splits)

lemma entry_keeps_unknown:
  "entry g x (P, st, tot, rows) = Some (Inr (P', st', tot', rows')) \<Longrightarrow>
   P n = None \<Longrightarrow> P' n = None \<and> length rows' = Suc (length rows)"
  by (auto simp: entry_def lookup_prediction_def
      split: option.splits sum.splits lookup.splits if_splits)

lemma entries_keep_unknown:
  "entries g xs (P, st, tot, rows) = Some (Inr (P', st', tot', rows')) \<Longrightarrow>
   P n = None \<Longrightarrow> P' n = None \<and> length rows' = length rows + length xs"
proof (induction xs arbitrary: P st tot rows)
  case Nil
  then show ?case by simp
next
  case (Cons x xs)
  from Cons.prems(1) obtain P1 st1 tot1 r1 where
    e: "entry g x (P, st, tot, rows) = Some (Inr (P1, st1, tot1, r1))"
    and r: "entries g xs (P1, st1, tot1, r1) = Some (Inr (P', st', tot', rows'))"
    by (auto split: option.splits sum.splits)
  from entry_keeps_unknown [OF e Cons.prems(2)] Cons.IH [OF r] show ?case by simp
qed

lemma affected_names_skip:
  "P (la_name e) = None \<Longrightarrow> affected_names P (xs @ e # ys) = affected_names P (xs @ ys)"
  by (simp add: affected_names_def lookup_prediction_def)

text \<open>
  An entry whose name is not registered and is no member of \<open>Object.prototype\<close>
  changes nothing: the result of \<open>update\<close>, error or not, is that of the list without the
  entry, with one empty row at the place of the entry.
\<close>

lemma undefined_name_skipped:
  assumes "predictions (la_name e) = None" and "la_name e \<notin> set object_prototype_names"
  shows "update g predictions (xs @ e # ys)
       = with_rows (\<lambda>rows. take (length xs) rows @ None # drop (length xs) rows)
           (update g predictions (xs @ ys))"
proof -
  define ps0 where
    "ps0 = (predictions, initial_state g (affected_names predictions (xs @ ys)), 0::real, []::row list)"
  have u1: "update g predictions (xs @ e # ys) = entries g (xs @ e # ys) ps0"
    using assms(1) by (simp add: update_def ps0_def affected_names_skip)
  have u2: "update g predictions (xs @ ys) = entries g (xs @ ys) ps0"
    by (simp add: update_def ps0_def)
  show ?thesis
  proof (cases "entries g xs ps0")
    case None
    then show ?thesis unfolding u1 u2 entries_append by (simp add: with_rows_def)
  next
    case (Some res)
    show ?thesis
    proof (cases res)
      case (Inl err)
      then show ?thesis using Some unfolding u1 u2 entries_append by (simp add: with_rows_def)
    next
      case (Inr ps)
      obtain P1 st1 tot1 r1 where ps: "ps = (P1, st1, tot1, r1)" by (cases ps) auto
      have xs: "entries g xs (predictions, initial_state g (affected_names predictions (xs @ ys)), 0, [])
          = Some (Inr (P1, st1, tot1, r1))"
        using Some Inr ps by (simp add: ps0_def)
      from entries_keep_unknown [OF xs assms(1)] have
        unk: "P1 (la_name e) = None" and len: "length r1 = length xs" by simp_all
      have skip: "entry g e (P1, st1, tot1, r1) = Some (Inr (P1, st1, tot1, r1 @ [None]))"
        using unk assms(2) by (simp add: entry_def lookup_prediction_def)
      have a: "entries g (xs @ e # ys) ps0 = entries g ys (P1, st1, tot1, r1 @ [None])"
        unfolding entries_append using Some Inr ps skip by simp
      have b: "entries g (xs @ ys) ps0 = entries g ys (P1, st1, tot1, r1)"
        unfolding entries_append using Some Inr ps by simp
      show ?thesis
        unfolding u1 u2 a b
        by (subst entries_rows [of g ys P1 st1 tot1 "r1 @ [None]"],
            subst entries_rows [of g ys P1 st1 tot1 r1])
           (auto simp: with_rows_def len split: option.splits sum.splits)
    qed
  qed
qed

text \<open>
  Claim C10. The skip misses the names that \<open>Object.prototype\<close> lends to every object.
  For such a name without a prediction the entry is not skipped: with a repetition it
  throws, and so does \<open>update\<close> when the entry comes first; with no repetition it
  writes a row marked valid.
\<close>

theorem inherited_name_not_skipped:
  assumes "predictions (la_name e) = None" and "la_name e \<in> set object_prototype_names"
  shows "(0 < loops e \<longrightarrow>
            entry g e (predictions, st, tot, rows) = Some (Inl TypeError)
          \<and> update g predictions (e # ys) = Some (Inl TypeError))
       \<and> (loops e = 0 \<longrightarrow>
            entry g e (predictions, st, tot, rows)
              = Some (Inr (predictions, st, tot, rows @ [Some (st_resources st, True)])))"
  using assms by (simp add: update_def entry_def lookup_prediction_def)

theorem inherited_name_not_skipped_witness:
  "catalogue ''toString'' = None
   \<and> entry sample_globals \<lparr>la_name = ''toString'', loops = 1\<rparr> (catalogue, fresh_state, 0, [])
       = Some (Inl TypeError)
   \<and> update sample_globals catalogue [\<lparr>la_name = ''toString'', loops = 1\<rparr>] = Some (Inl TypeError)
   \<and> update sample_globals catalogue [] = Some (Inr (catalogue, fresh_state, 0, []))"
proof -
  have h1: "catalogue (la_name \<lparr>la_name = ''toString'', loops = 1\<rparr>) = None"
    by (simp add: catalogue_def)
  have h2: "la_name \<lparr>la_name = ''toString'', loops = 1\<rparr> \<in> set object_prototype_names"
    by (simp add: object_prototype_names_def)
  have e: "update sample_globals catalogue [] = Some (Inr (catalogue, fresh_state, 0, []))"
    by (simp add: update_def affected_names_def fresh_state_def)
  show ?thesis
    using inherited_name_not_skipped [where predictions = catalogue
        and e = "\<lparr>la_name = ''toString'', loops = 1\<rparr>" and g = sample_globals
        and st = fresh_state and tot = 0 and rows = "[]" and ys = "[]", OF h1 h2] h1 e
    by simp
qed

end
